theory Spec2Isabelle
  imports Main
begin

section \<open>Data model\<close>

text \<open>
  A \<^verbatim>\<open>pathlib.Path\<close> is the list of its components: \<^verbatim>\<open>Path("/v/sub/a.md")\<close> is
  \<open>[''v'', ''sub'', ''a.md'']\<close>. A vault-relative path (the result of
  \<^verbatim>\<open>relative_to\<close>) is a component list as well.
\<close>

type_synonym path = "string list"
type_synonym vault_name = string

text \<open>
  Modification times (\<^verbatim>\<open>st_mtime\<close>) and embedding vectors are only passed from the
  file system and the encoder to the database; the code never computes with them.
\<close>

type_synonym mtime = int
type_synonym embedding = "int list"

type_synonym item = "vault_name \<times> path"

text \<open>
  The exceptions that leave the code: of opening and reading a file (\<open>ReadError\<close>, with
  the path: an \<^verbatim>\<open>OSError\<close>, or a \<^verbatim>\<open>UnicodeDecodeError\<close>, which in Python is itself a
  \<^verbatim>\<open>ValueError\<close>), of a stat (\<open>StatError\<close>), of the encoder, of
  \<^verbatim>\<open>self.vaults[vault_name]\<close>, of \<^verbatim>\<open>relative_to\<close>, of \<^verbatim>\<open>zip(..., strict=True)\<close> (argument 2
  shorter, argument 2 longer), of the access to an attribute an object does not have
  (\<open>AttributeError\<close>, with the name), and the three \<^verbatim>\<open>raise ValueError(...)\<close> statements
  of \<^verbatim>\<open>handle_call_tool\<close>, told apart by their messages: "Unknown tool: ...",
  "Missing arguments" and "Missing query".
\<close>

datatype error =
    ReadError path
  | StatError path
  | EncoderError
  | KeyError vault_name
  | ValueError_not_relative path path
  | ValueError_zip_shorter
  | ValueError_zip_longer
  | AttributeError string
  | ValueError_unknown_tool string
  | ValueError_missing_arguments
  | ValueError_missing_query

subsection \<open>pathlib\<close>

text \<open>\<^verbatim>\<open>PurePath.name\<close>: the final component, the empty string when there is none.\<close>

definition name :: "path \<Rightarrow> string" where
  "name p = (if p = [] then [] else last p)"

text \<open>\<^verbatim>\<open>str.rfind('.')\<close>: the index of the last dot, \<open>None\<close> for Python's \<open>-1\<close>.\<close>

fun rfind_dot :: "string \<Rightarrow> nat option" where
  "rfind_dot [] = None"
| "rfind_dot (c # cs) =
     (case rfind_dot cs of
        Some i \<Rightarrow> Some (Suc i)
      | None \<Rightarrow> if c = CHR ''.'' then Some 0 else None)"

text \<open>
  \<^verbatim>\<open>PurePath.suffix\<close>:
  \<^verbatim>\<open>
  name = self.name
  i = name.rfind('.')
  if 0 < i < len(name) - 1:
      return name[i:]
  else:
      return ''
  \<close>
\<close>

definition suffix :: "path \<Rightarrow> string" where
  "suffix p =
     (case rfind_dot (name p) of
        None \<Rightarrow> []
      | Some i \<Rightarrow> if 0 < i \<and> Suc i < length (name p) then drop i (name p) else [])"

text \<open>
  \<^verbatim>\<open>path.relative_to(root)\<close>: the components of \<open>path\<close> after those of \<open>root\<close>;
  ValueError when \<open>root\<close> is not a prefix of \<open>path\<close>.
\<close>

definition relative_to :: "path \<Rightarrow> path \<Rightarrow> error + path" where
  "relative_to p root =
     (if take (length root) p = root then Inr (drop (length root) p)
      else Inl (ValueError_not_relative p root))"

subsection \<open>The file system\<close>

text \<open>
  The file system is outside the program. Each call the code makes into it is a field:
  \<^item> \<open>fs_is_file p\<close>: \<^verbatim>\<open>p.is_file()\<close>;
  \<^item> \<open>fs_read p\<close>: \<^verbatim>\<open>open(p, "r").read()\<close> and \<^verbatim>\<open>p.read_text()\<close>, \<open>None\<close> when the
    call raises (file vanished, permission denied, not valid text);
  \<^item> \<open>fs_mtime p\<close>: \<^verbatim>\<open>p.stat().st_mtime\<close>, \<open>None\<close> when \<^verbatim>\<open>stat\<close> raises;
  \<^item> \<open>fs_resolve p\<close>: \<^verbatim>\<open>p.resolve()\<close>, the canonical absolute path (symlinks followed);
  \<^item> \<open>fs_rglob_md root\<close>: what \<^verbatim>\<open>root.rglob("*.md")\<close> yields, in order.
  The four read-only fields are independent of each other, so that a file that is there
  when it is enqueued and gone when it is read is a file system like any other.
\<close>

record filesystem =
  fs_is_file :: "path \<Rightarrow> bool"
  fs_read :: "path \<Rightarrow> string option"
  fs_mtime :: "path \<Rightarrow> mtime option"
  fs_resolve :: "path \<Rightarrow> path"
  fs_rglob_md :: "path \<Rightarrow> path list"

subsection \<open>Calls to the outside, in the order they are made\<close>

datatype event =
    OpenRead path
  | EncodeDocuments "string list" int
  | StatFile path
  | StoreNote path vault_name mtime embedding
  | Rglob path
  | Search string

datatype warning =
    Path_is_not_a_file path
  | Deleted_file path
  | Moved_file path

subsection \<open>The database\<close>

text \<open>
  Modelled from the spec: the class \<^verbatim>\<open>Database\<close> (\<^verbatim>\<open>obsidian_index.index.database\<close>) is
  not among the sources. The spec gives its contract: \<^verbatim>\<open>num_records() \<rightarrow> int\<close> and
  \<^verbatim>\<open>upsert(vault, relative_path, modified_time, embedding)\<close>, keyed by
  \<^verbatim>\<open>(vault, relative_path)\<close>, last write wins. The table is an association list with one
  entry per key.
\<close>

type_synonym database = "((vault_name \<times> path) \<times> (mtime \<times> embedding)) list"

definition num_notes :: "database \<Rightarrow> int" where
  "num_notes db = int (length db)"

fun upsert :: "'k \<Rightarrow> 'v \<Rightarrow> ('k \<times> 'v) list \<Rightarrow> ('k \<times> 'v) list" where
  "upsert k r [] = [(k, r)]"
| "upsert k r ((k', r') # db) = (if k' = k then (k, r) # db else (k', r') # upsert k r db)"

section \<open>indexer.py\<close>

subsection \<open>class Indexer\<close>

text \<open>
  The fields of the class, with the dictionary \<open>vaults\<close> as the list of its items in
  iteration order. \<open>wait_cv\<close> has no state of its own in a sequential model;
  \<open>directory_watchers\<close> is the list of watched \<open>(vault_name, root)\<close> pairs. Two fields are
  added: \<open>trace\<close>, the calls made to the file system, the encoder, the database and the
  searcher, oldest first; and \<open>warnings\<close>, the \<^verbatim>\<open>logger.warning\<close> calls (\<^verbatim>\<open>logger.info\<close>
  is left out).
\<close>

record indexer =
  database :: database
  vaults :: "(vault_name \<times> path) list"
  encoder :: "string list \<Rightarrow> int \<Rightarrow> error + embedding list"
  ingest_queue :: "item list"
  directory_watchers :: "(vault_name \<times> path) list"
  ingest_batch_size :: int
  model_batch_size :: int
  trace :: "event list"
  warnings :: "warning list"

text \<open>\<^verbatim>\<open>self.database.store_note(vault_rel_path, vault_name, mtime, emb)\<close>\<close>

definition store_note :: "path \<Rightarrow> vault_name \<Rightarrow> mtime \<Rightarrow> embedding \<Rightarrow> indexer \<Rightarrow> indexer" where
  "store_note vault_rel_path vault_name m emb ix =
     ix\<lparr>database := upsert (vault_name, vault_rel_path) (m, emb) (database ix),
        trace := trace ix @ [StoreNote vault_rel_path vault_name m emb]\<rparr>"

text \<open>
  The first loop of \<^verbatim>\<open>_do_ingest_paths\<close>:
  \<^verbatim>\<open>
  for _, path in vault_name_paths:
      with open(path, "r") as f:
          texts.append(f.read())
  \<close>
\<close>

fun load_texts ::
  "filesystem \<Rightarrow> item list \<Rightarrow> string list \<Rightarrow> indexer \<Rightarrow> (error + string list) \<times> indexer" where
  "load_texts fs [] texts ix = (Inr texts, ix)"
| "load_texts fs ((vault_name, p) # rest) texts ix =
     (let ix' = ix\<lparr>trace := trace ix @ [OpenRead p]\<rparr> in
      case fs_read fs p of
        None \<Rightarrow> (Inl (ReadError p), ix')
      | Some text \<Rightarrow> load_texts fs rest (texts @ [text]) ix')"

text \<open>
  The second loop of \<^verbatim>\<open>_do_ingest_paths\<close>:
  \<^verbatim>\<open>
  for (vault_name, path), emb in zip(vault_name_paths, embs, strict=True):
      vault_rel_path = path.relative_to(self.vaults[vault_name])
      self.database.store_note(vault_rel_path, vault_name, path.stat().st_mtime, emb)
  \<close>
  \<^verbatim>\<open>zip(..., strict=True)\<close> yields pairs while both sequences have elements and raises
  ValueError when exactly one of them is exhausted.
\<close>

fun store_embeddings ::
  "filesystem \<Rightarrow> item list \<Rightarrow> embedding list \<Rightarrow> indexer \<Rightarrow> (error + unit) \<times> indexer" where
  "store_embeddings fs [] [] ix = (Inr (), ix)"
| "store_embeddings fs (x # xs) [] ix = (Inl ValueError_zip_shorter, ix)"
| "store_embeddings fs [] (emb # embs) ix = (Inl ValueError_zip_longer, ix)"
| "store_embeddings fs ((vault_name, p) # xs) (emb # embs) ix =
     (case map_of (vaults ix) vault_name of
        None \<Rightarrow> (Inl (KeyError vault_name), ix)
      | Some root \<Rightarrow>
          (case relative_to p root of
             Inl e \<Rightarrow> (Inl e, ix)
           | Inr vault_rel_path \<Rightarrow>
               (let ix' = ix\<lparr>trace := trace ix @ [StatFile p]\<rparr> in
                case fs_mtime fs p of
                  None \<Rightarrow> (Inl (StatError p), ix')
                | Some m \<Rightarrow>
                    store_embeddings fs xs embs (store_note vault_rel_path vault_name m emb ix'))))"

text \<open>\<^verbatim>\<open>Indexer._do_ingest_paths\<close> (an Isabelle name cannot start with an underscore).\<close>

definition do_ingest_paths :: "filesystem \<Rightarrow> item list \<Rightarrow> indexer \<Rightarrow> (error + unit) \<times> indexer" where
  "do_ingest_paths fs vault_name_paths ix =
     (case load_texts fs vault_name_paths [] ix of
        (Inl e, ix1) \<Rightarrow> (Inl e, ix1)
      | (Inr texts, ix1) \<Rightarrow>
          (let ix2 = ix1\<lparr>trace := trace ix1 @ [EncodeDocuments texts (model_batch_size ix1)]\<rparr> in
           case encoder ix2 texts (model_batch_size ix2) of
             Inl e \<Rightarrow> (Inl e, ix2)
           | Inr embs \<Rightarrow> store_embeddings fs vault_name_paths embs ix2))"

text \<open>
  The loop of \<^verbatim>\<open>_do_ingest_batch\<close>, on the queue and the batch:
  \<^verbatim>\<open>
  while self.ingest_queue and len(batch) < self.ingest_batch_size:
      vault_name_path = self.ingest_queue.popleft()
      batch.append(vault_name_path)
  \<close>
  It returns the batch and what is left of the queue.
\<close>

fun collect_batch :: "int \<Rightarrow> item list \<Rightarrow> item list \<Rightarrow> item list \<times> item list" where
  "collect_batch n [] batch = (batch, [])"
| "collect_batch n (x # queue) batch =
     (if int (length batch) < n then collect_batch n queue (batch @ [x])
      else (batch, x # queue))"

text \<open>\<^verbatim>\<open>Indexer._do_ingest_batch\<close>\<close>

definition do_ingest_batch :: "filesystem \<Rightarrow> indexer \<Rightarrow> (error + unit) \<times> indexer" where
  "do_ingest_batch fs ix =
     (case collect_batch (ingest_batch_size ix) (ingest_queue ix) [] of
        (batch, queue') \<Rightarrow> do_ingest_paths fs batch (ix\<lparr>ingest_queue := queue'\<rparr>))"

text \<open>\<^verbatim>\<open>Indexer.enqueue_path_for_ingestion\<close>\<close>

definition enqueue_path_for_ingestion :: "filesystem \<Rightarrow> vault_name \<Rightarrow> path \<Rightarrow> indexer \<Rightarrow> indexer" where
  "enqueue_path_for_ingestion fs vault_name p ix =
     (if fs_is_file fs p then ix\<lparr>ingest_queue := ingest_queue ix @ [(vault_name, p)]\<rparr>
      else ix\<lparr>warnings := warnings ix @ [Path_is_not_a_file p]\<rparr>)"

text \<open>
  \<^verbatim>\<open>Indexer.find_all_note_paths\<close>: the generator's items, in the order it yields them.
\<close>

definition find_all_note_paths :: "filesystem \<Rightarrow> indexer \<Rightarrow> item list" where
  "find_all_note_paths fs ix =
     concat (map (\<lambda>(vault_name, root). map (Pair vault_name) (fs_rglob_md fs root)) (vaults ix))"

text \<open>
  \<^verbatim>\<open>Indexer.enqueue_all_note_paths_for_ingestion\<close>. The scans of the roots are recorded
  in the trace; nothing else in the loop writes to the trace.
\<close>

definition enqueue_all_note_paths_for_ingestion :: "filesystem \<Rightarrow> indexer \<Rightarrow> indexer" where
  "enqueue_all_note_paths_for_ingestion fs ix =
     fold (\<lambda>(vault_name, p). enqueue_path_for_ingestion fs vault_name p)
       (find_all_note_paths fs ix)
       (ix\<lparr>trace := trace ix @ map (\<lambda>(vault_name, root). Rglob root) (vaults ix)\<rparr>)"

text \<open>
  \<^verbatim>\<open>Indexer.__init__\<close>. \<open>db\<close> is the database opened at \<^verbatim>\<open>database_path\<close>: it holds what
  earlier runs stored.
\<close>

definition Indexer ::
  "filesystem \<Rightarrow> database \<Rightarrow> (vault_name \<times> path) list \<Rightarrow> (string list \<Rightarrow> int \<Rightarrow> error + embedding list)
     \<Rightarrow> bool \<Rightarrow> int \<Rightarrow> int \<Rightarrow> indexer" where
  "Indexer fs db vs enc watch ibs mbs =
     (let self = \<lparr>database = db, vaults = vs, encoder = enc, ingest_queue = [],
                  directory_watchers = [], ingest_batch_size = ibs, model_batch_size = mbs,
                  trace = [], warnings = []\<rparr>;
          self = (if num_notes (database self) = 0
                  then enqueue_all_note_paths_for_ingestion fs self else self)
      in if watch then self\<lparr>directory_watchers := vs\<rparr> else self)"

text \<open>
  \<^verbatim>\<open>Indexer.run_ingestor\<close>:
  \<^verbatim>\<open>
  while self.ingest_queue or not stop_when_done:
      with self.wait_cv:
          self.wait_cv.wait_for(lambda: bool(self.ingest_queue))
          self._do_ingest_batch()
  \<close>
  The loop may run forever, so it takes fuel, one unit per evaluation of the loop
  condition; \<open>None\<close> is "has not returned yet". An exception of \<^verbatim>\<open>_do_ingest_batch\<close>
  leaves the loop. The threads of the watchers append to the queue while the loop runs:
  \<open>arrivals\<close> lists what they have appended before each evaluation of the loop
  condition (the empty list when no watcher runs, or when nothing more arrives).
  \<^verbatim>\<open>wait_for\<close> on an empty queue waits for the next arrival.
\<close>

fun run_ingestor ::
  "nat \<Rightarrow> filesystem \<Rightarrow> item list list \<Rightarrow> bool \<Rightarrow> indexer \<Rightarrow> ((error + unit) \<times> indexer) option" where
  "run_ingestor 0 fs arrivals stop_when_done ix = None"
| "run_ingestor (Suc fuel) fs arrivals stop_when_done ix =
     (let ix = (case arrivals of [] \<Rightarrow> ix
                | a # _ \<Rightarrow> ix\<lparr>ingest_queue := ingest_queue ix @ a\<rparr>)
      in if ingest_queue ix \<noteq> [] \<or> \<not> stop_when_done then
           (if ingest_queue ix = [] then run_ingestor fuel fs (tl arrivals) stop_when_done ix
            else
              (case do_ingest_batch fs ix of
                 (Inl e, ix') \<Rightarrow> Some (Inl e, ix')
               | (Inr u, ix') \<Rightarrow> run_ingestor fuel fs (tl arrivals) stop_when_done ix'))
         else Some (Inr (), ix))"

subsection \<open>The event handler of indexer.py (class \<^verbatim>\<open>_FSEventHandler\<close>)\<close>

text \<open>
  A watchdog event, as far as the handlers read it. The handlers assert that
  \<open>src_path\<close> is a \<^verbatim>\<open>str\<close>; here it is one by its type.
\<close>

record fs_event =
  is_directory :: bool
  src_path :: path

definition on_created :: "filesystem \<Rightarrow> vault_name \<Rightarrow> fs_event \<Rightarrow> indexer \<Rightarrow> indexer" where
  "on_created fs vault_name ev ix =
     (if \<not> is_directory ev then
        (let p = src_path ev in
         if fs_is_file fs p \<and> suffix p = ''.md''
         then enqueue_path_for_ingestion fs vault_name (fs_resolve fs p) ix
         else ix)
      else ix)"

definition on_modified :: "filesystem \<Rightarrow> vault_name \<Rightarrow> fs_event \<Rightarrow> indexer \<Rightarrow> indexer" where
  "on_modified fs vault_name ev ix =
     (if \<not> is_directory ev then
        (let p = src_path ev in
         if fs_is_file fs p \<and> suffix p = ''.md''
         then enqueue_path_for_ingestion fs vault_name (fs_resolve fs p) ix
         else ix)
      else ix)"

definition on_deleted :: "filesystem \<Rightarrow> vault_name \<Rightarrow> fs_event \<Rightarrow> indexer \<Rightarrow> indexer" where
  "on_deleted fs vault_name ev ix =
     (if \<not> is_directory ev then
        (let p = src_path ev in
         if fs_is_file fs p \<and> suffix p = ''.md''
         then ix\<lparr>warnings := warnings ix @ [Deleted_file p]\<rparr>
         else ix)
      else ix)"

definition on_moved :: "filesystem \<Rightarrow> vault_name \<Rightarrow> fs_event \<Rightarrow> indexer \<Rightarrow> indexer" where
  "on_moved fs vault_name ev ix =
     (if \<not> is_directory ev then
        (let p = src_path ev in
         if fs_is_file fs p \<and> suffix p = ''.md''
         then ix\<lparr>warnings := warnings ix @ [Moved_file p]\<rparr>
         else ix)
      else ix)"

section \<open>main.py\<close>



section \<open>worker.py\<close>

subsection \<open>class Worker\<close>

text \<open>
  Modelled from the spec: the base class \<^verbatim>\<open>BaseWorker\<close>
  (\<^verbatim>\<open>obsidian_index.background_worker\<close>) is not among the sources. Its state, as the spec
  describes the worker loop and the request channel: the pending-request slot (0 or 1
  occupied, holding the query), the response placed for the caller, and the shutdown
  flag.
\<close>

record base_worker =
  pending_request :: "string option"
  response :: "path list option"
  shutdown_requested :: bool

text \<open>
  The fields of \<^verbatim>\<open>Worker\<close> that its methods read or write. The database and the
  vaults are those of its indexer; \<open>searcher\<close> is \<^verbatim>\<open>Searcher.search\<close>, an external
  collaborator (most relevant path first); the queue holds the
  \<^verbatim>\<open>IndexMessage(vault_name, path)\<close> as pairs.
\<close>

record worker = base_worker +
  w_indexer :: indexer
  searcher :: "string \<Rightarrow> path list"
  w_ingest_queue :: "item list"
  w_ingest_batch_size :: int

text \<open>\<^verbatim>\<open>Worker.enqueue_path_for_ingestion\<close>\<close>

definition w_enqueue_path_for_ingestion :: "vault_name \<Rightarrow> path \<Rightarrow> worker \<Rightarrow> worker" where
  "w_enqueue_path_for_ingestion vault_name p w =
     w\<lparr>w_ingest_queue := w_ingest_queue w @ [(vault_name, p)]\<rparr>"

text \<open>\<^verbatim>\<open>Worker.process_message\<close>: the response's paths, and the worker after the call.\<close>

definition process_message :: "string \<Rightarrow> worker \<Rightarrow> path list \<times> worker" where
  "process_message query w =
     (let ix = w_indexer w;
          paths = searcher w query
      in (paths, w\<lparr>w_indexer := ix\<lparr>trace := trace ix @ [Search query]\<rparr>\<rparr>))"

text \<open>\<^verbatim>\<open>Worker.default_work_available\<close>\<close>

definition default_work_available :: "worker \<Rightarrow> bool" where
  "default_work_available w = (w_ingest_queue w \<noteq> [])"

text \<open>
  The loop of \<^verbatim>\<open>Worker.default_work\<close>, on the remaining iterations of
  \<^verbatim>\<open>range(self.ingest_batch_size)\<close>, the queue and the batch:
  \<^verbatim>\<open>
  for _ in range(self.ingest_batch_size):
      try:
          message = self.ingest_queue.get_nowait()
      except QueueEmpty:
          break
      batch.append((message.vault_name, message.path))
  \<close>
\<close>

fun get_batch :: "nat \<Rightarrow> item list \<Rightarrow> item list \<Rightarrow> item list \<times> item list" where
  "get_batch 0 queue batch = (batch, queue)"
| "get_batch (Suc n) [] batch = (batch, [])"
| "get_batch (Suc n) (message # queue) batch = get_batch n queue (batch @ [message])"

text \<open>
  \<^verbatim>\<open>Worker.default_work\<close>. \<^verbatim>\<open>range(n)\<close> is empty for \<open>n \<le> 0\<close>. After the loop comes
  \<^verbatim>\<open>self.indexer.ingest_paths(batch)\<close>. The \<^verbatim>\<open>Indexer\<close> that worker.py imports is the
  class of indexer.py, and it has no attribute \<^verbatim>\<open>ingest_paths\<close> (its methods are
  \<^verbatim>\<open>run_ingestor\<close>, \<^verbatim>\<open>_do_ingest_batch\<close>, \<^verbatim>\<open>_do_ingest_paths\<close>,
  \<^verbatim>\<open>enqueue_path_for_ingestion\<close>, \<^verbatim>\<open>find_all_note_paths\<close> and
  \<^verbatim>\<open>enqueue_all_note_paths_for_ingestion\<close>): the attribute access raises
  \<^verbatim>\<open>AttributeError\<close>. By then the batch has been taken off the queue; nothing is read,
  encoded or stored, and the batch, a local variable, is gone.
\<close>

definition default_work :: "worker \<Rightarrow> (error + unit) \<times> worker" where
  "default_work w =
     (case get_batch (nat (w_ingest_batch_size w)) (w_ingest_queue w) [] of
        (batch, queue') \<Rightarrow> (Inl (AttributeError ''ingest_paths''), w\<lparr>w_ingest_queue := queue'\<rparr>))"

text \<open>
  Modelled from the spec: the control loop of \<^verbatim>\<open>BaseWorker\<close>, which is not among the
  sources. The spec, for one wake: "if shutdown requested, exit. Else if a request is
  pending, service it synchronously (call external search, place the response, clear
  the slot) [...]. Else \<^verbatim>\<open>drain_batch(ingest_batch_size)\<close> from the ChangeQueue and, if
  non-empty, run \<^verbatim>\<open>IngestionEngine.ingest\<close>." The search is \<^verbatim>\<open>Worker.process_message\<close>,
  the drain and the ingestion are \<^verbatim>\<open>Worker.default_work\<close>, run when
  \<^verbatim>\<open>Worker.default_work_available\<close> holds. The result says whether the loop goes on
  (\<open>True\<close>) or exits (\<open>False\<close>); an exception of \<^verbatim>\<open>default_work\<close> leaves the loop.
\<close>

definition control_loop_body :: "worker \<Rightarrow> (error + bool) \<times> worker" where
  "control_loop_body w =
     (if shutdown_requested w then (Inr False, w)
      else
        (case pending_request w of
           Some query \<Rightarrow>
             (case process_message query w of
                (paths, w') \<Rightarrow> (Inr True, w'\<lparr>response := Some paths, pending_request := None\<rparr>))
         | None \<Rightarrow>
             (if default_work_available w then
                (case default_work w of
                   (Inl e, w') \<Rightarrow> (Inl e, w')
                 | (Inr u, w') \<Rightarrow> (Inr True, w'))
              else (Inr True, w))))"

subsection \<open>The event handler of worker.py (class \<^verbatim>\<open>_FSEventHandler\<close>)\<close>

definition w_on_deleted :: "filesystem \<Rightarrow> vault_name \<Rightarrow> fs_event \<Rightarrow> worker \<Rightarrow> worker" where
  "w_on_deleted fs vault_name ev w =
     (if \<not> is_directory ev then
        (let p = src_path ev in
         if fs_is_file fs p \<and> suffix p = ''.md''
         then w\<lparr>w_indexer := (w_indexer w)\<lparr>warnings := warnings (w_indexer w) @ [Deleted_file p]\<rparr>\<rparr>
         else w)
      else w)"

definition w_on_moved :: "filesystem \<Rightarrow> vault_name \<Rightarrow> fs_event \<Rightarrow> worker \<Rightarrow> worker" where
  "w_on_moved fs vault_name ev w =
     (if \<not> is_directory ev then
        (let p = src_path ev in
         if fs_is_file fs p \<and> suffix p = ''.md''
         then w\<lparr>w_indexer := (w_indexer w)\<lparr>warnings := warnings (w_indexer w) @ [Moved_file p]\<rparr>\<rparr>
         else w)
      else w)"

section \<open>mcp_server.py\<close>

text \<open>\<^verbatim>\<open>str(path)\<close> of an absolute path.\<close>

definition str_path :: "path \<Rightarrow> string" where
  "str_path p = (if p = [] then ''/'' else concat (map (\<lambda>c. ''/'' @ c) p))"

text \<open>
  The \<^verbatim>\<open>EmbeddedResource\<close> built for a path \<open>p\<close> whose \<^verbatim>\<open>read_text()\<close> is \<open>t\<close>
  (\<^verbatim>\<open>type\<close> is the constant \<^verbatim>\<open>"resource"\<close>; \<open>text_of\<close> is the field \<^verbatim>\<open>text\<close>). Its
  \<^verbatim>\<open>uri\<close> is \<^verbatim>\<open>pydantic.networks.FileUrl("file://" + str(path))\<close>; \<open>file_url\<close> is that
  constructor, a library function that parses and normalises the string (a space in
  the path becomes \<^verbatim>\<open>%20\<close>), as the string of the URL it returns.
\<close>

record embedded_resource =
  uri :: string
  mimeType :: string
  text_of :: string

definition resource_of :: "(string \<Rightarrow> string) \<Rightarrow> path \<Rightarrow> string \<Rightarrow> embedded_resource" where
  "resource_of file_url p t =
     \<lparr>uri = file_url (''file://'' @ str_path p), mimeType = ''text/markdown'', text_of = t\<rparr>"

text \<open>
  The list comprehension that ends \<^verbatim>\<open>handle_call_tool\<close>: one \<^verbatim>\<open>path.read_text()\<close> per
  path, in order; the first one that raises ends the request.
\<close>

fun embed_resources ::
  "filesystem \<Rightarrow> (string \<Rightarrow> string) \<Rightarrow> path list \<Rightarrow> event list
     \<Rightarrow> (error + embedded_resource list) \<times> event list" where
  "embed_resources fs file_url [] tr = (Inr [], tr)"
| "embed_resources fs file_url (p # paths) tr =
     (case fs_read fs p of
        None \<Rightarrow> (Inl (ReadError p), tr @ [OpenRead p])
      | Some t \<Rightarrow>
          (case embed_resources fs file_url paths (tr @ [OpenRead p]) of
             (Inl e, tr') \<Rightarrow> (Inl e, tr')
           | (Inr rs, tr') \<Rightarrow> (Inr (resource_of file_url p t # rs), tr')))"

text \<open>
  \<^verbatim>\<open>handle_call_tool(name, arguments)\<close>. \<open>arguments\<close> is \<^verbatim>\<open>dict | None\<close>; the tool's
  input schema declares \<^verbatim>\<open>query\<close> a string, so the dictionary maps strings to strings.
  \<open>search\<close> is the \<^verbatim>\<open>searcher.search\<close> of the enclosing \<^verbatim>\<open>run_server\<close> and \<open>file_url\<close>
  the \<^verbatim>\<open>FileUrl\<close> constructor; both are outside the sources and taken as functions
  that return. The handler has no other state: it takes the trace of the calls made so
  far and returns it extended.
\<close>

definition handle_call_tool ::
  "filesystem \<Rightarrow> (string \<Rightarrow> path list) \<Rightarrow> (string \<Rightarrow> string) \<Rightarrow> string
     \<Rightarrow> (string \<times> string) list option \<Rightarrow> event list
     \<Rightarrow> (error + embedded_resource list) \<times> event list" where
  "handle_call_tool fs search file_url tool_name arguments tr =
     (if tool_name \<noteq> ''search-notes'' then (Inl (ValueError_unknown_tool tool_name), tr)
      else
        (case arguments of
           None \<Rightarrow> (Inl ValueError_missing_arguments, tr)
         | Some args \<Rightarrow>
             (if args = [] then (Inl ValueError_missing_arguments, tr)
              else
                (case map_of args ''query'' of
                   None \<Rightarrow> (Inl ValueError_missing_query, tr)
                 | Some query \<Rightarrow>
                     (if query = [] then (Inl ValueError_missing_query, tr)
                      else embed_resources fs file_url (search query) (tr @ [Search query]))))))"

section \<open>Observations and example inputs\<close>

text \<open>The \<^verbatim>\<open>store_note\<close> calls of a trace, oldest first.\<close>

fun upserts :: "event list \<Rightarrow> (vault_name \<times> path \<times> mtime \<times> embedding) list" where
  "upserts [] = []"
| "upserts (StoreNote vault_rel_path vault_name m emb # tr) =
     (vault_name, vault_rel_path, m, emb) # upserts tr"
| "upserts (e # tr) = upserts tr"

text \<open>The other calls of a trace, by kind, oldest first.\<close>

fun reads :: "event list \<Rightarrow> path list" where
  "reads [] = []"
| "reads (OpenRead p # tr) = p # reads tr"
| "reads (e # tr) = reads tr"

fun encoder_calls :: "event list \<Rightarrow> (string list \<times> int) list" where
  "encoder_calls [] = []"
| "encoder_calls (EncodeDocuments texts n # tr) = (texts, n) # encoder_calls tr"
| "encoder_calls (e # tr) = encoder_calls tr"

fun searches :: "event list \<Rightarrow> string list" where
  "searches [] = []"
| "searches (Search query # tr) = query # searches tr"
| "searches (e # tr) = searches tr"

text \<open>
  The scenario of the spec: one vault \<open>V\<close> rooted at \<open>/V\<close>, every path a readable file,
  an encoder that returns one vector per text, an empty database, batch size 2.
\<close>

definition scenario_fs :: filesystem where
  "scenario_fs =
     \<lparr>fs_is_file = (\<lambda>p. True), fs_read = (\<lambda>p. Some (concat p)), fs_mtime = (\<lambda>p. Some 7),
      fs_resolve = (\<lambda>p. p), fs_rglob_md = (\<lambda>root. [])\<rparr>"

definition scenario_encoder :: "string list \<Rightarrow> int \<Rightarrow> error + embedding list" where
  "scenario_encoder texts n = Inr (map (\<lambda>t. [int (length t)]) texts)"

definition scenario_indexer :: indexer where
  "scenario_indexer = Indexer scenario_fs [] [(''V'', [''V''])] scenario_encoder False 2 16"

text \<open>The file system of the scenario with \<open>/V/b.md\<close> unreadable.\<close>

definition unreadable_fs :: filesystem where
  "unreadable_fs = scenario_fs\<lparr>fs_read := (\<lambda>p. if p = [''V'', ''b.md''] then None else Some (concat p))\<rparr>"

text \<open>An encoder that returns one vector too few, and the scenario's indexer with it.\<close>

definition short_encoder :: "string list \<Rightarrow> int \<Rightarrow> error + embedding list" where
  "short_encoder texts n = Inr (map (\<lambda>t. [int (length t)]) (butlast texts))"

definition short_indexer :: indexer where
  "short_indexer = scenario_indexer\<lparr>encoder := short_encoder\<rparr>"

text \<open>
  The cold-bootstrap scenario of the spec: three vault roots whose scans yield 5, 0 and
  2 notes, every path a readable file, an empty database.
\<close>

definition three_vaults_fs :: filesystem where
  "three_vaults_fs = scenario_fs\<lparr>fs_rglob_md := (\<lambda>root.
      if root = [''A''] then [[''A'', ''1.md''], [''A'', ''2.md''], [''A'', ''3.md''],
                               [''A'', ''sub'', ''4.md''], [''A'', ''sub'', ''5.md'']]
      else if root = [''C''] then [[''C'', ''6.md''], [''C'', ''7.md'']]
      else [])\<rparr>"

definition three_vaults :: "(vault_name \<times> path) list" where
  "three_vaults = [(''A'', [''A'']), (''B'', [''B'']), (''C'', [''C''])]"

text \<open>
  A vault in which \<open>/V/link.md\<close> is a symbolic link to the file \<open>/V/target.txt\<close>:
  \<^verbatim>\<open>is_file()\<close> follows the link, \<^verbatim>\<open>resolve()\<close> returns the target.
\<close>

definition symlink_fs :: filesystem where
  "symlink_fs = scenario_fs\<lparr>
     fs_is_file := (\<lambda>p. p = [''V'', ''link.md''] \<or> p = [''V'', ''target.txt'']),
     fs_resolve := (\<lambda>p. if p = [''V'', ''link.md''] then [''V'', ''target.txt''] else p)\<rparr>"

text \<open>The scenario's vault after \<open>/V/a.md\<close> has been indexed and then deleted.\<close>

definition deleted_fs :: filesystem where
  "deleted_fs = scenario_fs\<lparr>fs_is_file := (\<lambda>p. p \<noteq> [''V'', ''a.md''])\<rparr>"

definition indexed_indexer :: indexer where
  "indexed_indexer = scenario_indexer\<lparr>database := [((''V'', [''a.md'']), 7, [5])]\<rparr>"

text \<open>
  A worker over the scenario's indexer with three items queued, batch size 2 and a
  search request pending.
\<close>

definition scenario_worker :: worker where
  "scenario_worker =
     \<lparr>pending_request = Some ''haskell'',
      response = None,
      shutdown_requested = False,
      w_indexer = scenario_indexer,
      searcher = (\<lambda>query. [[''V'', ''b.md''], [''V'', ''a.md'']]),
      w_ingest_queue = [(''V'', [''V'', ''a.md'']), (''V'', [''V'', ''b.md'']), (''V'', [''V'', ''a.md''])],
      w_ingest_batch_size = 2\<rparr>"

section \<open>Properties of the model\<close>

lemma collect_batch_eq:
  "collect_batch n q b = (b @ take (nat n - length b) q, drop (nat n - length b) q)"
proof (induction q arbitrary: b)
  case Nil
  then show ?case by simp
next
  case (Cons x q)
  show ?case
  proof (cases "int (length b) < n")
    case True
    then have "nat n - length b = Suc (nat n - Suc (length b))" by linarith
    with True Cons show ?thesis by simp
  next
    case False
    then have "nat n - length b = 0" by linarith
    with False show ?thesis by simp
  qed
qed

lemma get_batch_eq: "get_batch k q b = (b @ take k q, drop k q)"
  by (induction k q b rule: get_batch.induct) simp_all

lemma do_ingest_batch_eq:
  "do_ingest_batch fs ix =
     do_ingest_paths fs (take (nat (ingest_batch_size ix)) (ingest_queue ix))
       (ix\<lparr>ingest_queue := drop (nat (ingest_batch_size ix)) (ingest_queue ix)\<rparr>)"
  by (simp add: do_ingest_batch_def collect_batch_eq)

lemma default_work_eq:
  "default_work w =
     (Inl (AttributeError ''ingest_paths''),
      w\<lparr>w_ingest_queue := drop (nat (w_ingest_batch_size w)) (w_ingest_queue w)\<rparr>)"
  by (simp add: default_work_def get_batch_eq)



subsection \<open>Reading the texts and storing the embeddings\<close>

lemma load_texts_Inr:
  "load_texts fs items texts ix = (Inr ts, ix') \<Longrightarrow>
     \<exists>new. ts = texts @ new \<and> map (\<lambda>(v, p). fs_read fs p) items = map Some new
       \<and> ix' = ix\<lparr>trace := trace ix @ map (\<lambda>(v, p). OpenRead p) items\<rparr>"
proof (induction items arbitrary: texts ix)
  case Nil
  then show ?case by simp
next
  case (Cons x rest)
  obtain v p where x: "x = (v, p)" by (cases x)
  from Cons.prems x obtain t where t: "fs_read fs p = Some t"
    and rec: "load_texts fs rest (texts @ [t]) (ix\<lparr>trace := trace ix @ [OpenRead p]\<rparr>) = (Inr ts, ix')"
    by (auto simp: Let_def split: option.splits)
  from Cons.IH [OF rec] obtain new where "ts = (texts @ [t]) @ new"
    "map (\<lambda>(v, p). fs_read fs p) rest = map Some new"
    "ix' = ix\<lparr>trace := trace ix @ [OpenRead p]\<rparr>\<lparr>trace := trace (ix\<lparr>trace := trace ix @ [OpenRead p]\<rparr>) @ map (\<lambda>(v, p). OpenRead p) rest\<rparr>"
    by blast
  then have "ts = texts @ (t # new) \<and> map (\<lambda>(v, p). fs_read fs p) (x # rest) = map Some (t # new)
       \<and> ix' = ix\<lparr>trace := trace ix @ map (\<lambda>(v, p). OpenRead p) (x # rest)\<rparr>"
    using x t by simp
  then show ?case by blast
qed

lemma load_texts_Inl:
  "load_texts fs items texts ix = (Inl e, ix') \<Longrightarrow>
     \<exists>k<length items. fs_read fs (snd (items ! k)) = None \<and> e = ReadError (snd (items ! k))
       \<and> ix' = ix\<lparr>trace := trace ix @ map (\<lambda>(v, p). OpenRead p) (take (Suc k) items)\<rparr>
       \<and> (\<forall>j<k. fs_read fs (snd (items ! j)) \<noteq> None)"
proof (induction items arbitrary: texts ix)
  case Nil
  then show ?case by simp
next
  case (Cons x rest)
  obtain v p where x: "x = (v, p)" by (cases x)
  show ?case
  proof (cases "fs_read fs p")
    case None
    with Cons.prems x have "e = ReadError p" "ix' = ix\<lparr>trace := trace ix @ [OpenRead p]\<rparr>"
      by (auto simp: Let_def)
    with None x have "0 < length (x # rest) \<and> fs_read fs (snd ((x # rest) ! 0)) = None
      \<and> e = ReadError (snd ((x # rest) ! 0))
      \<and> ix' = ix\<lparr>trace := trace ix @ map (\<lambda>(v, p). OpenRead p) (take (Suc 0) (x # rest))\<rparr>
      \<and> (\<forall>j<0. fs_read fs (snd ((x # rest) ! j)) \<noteq> None)"
      by simp
    then show ?thesis by blast
  next
    case (Some t)
    with Cons.prems x
    have rec: "load_texts fs rest (texts @ [t]) (ix\<lparr>trace := trace ix @ [OpenRead p]\<rparr>) = (Inl e, ix')"
      by (auto simp: Let_def)
    from Cons.IH [OF rec] obtain k where k: "k < length rest"
      "fs_read fs (snd (rest ! k)) = None" "e = ReadError (snd (rest ! k))"
      "ix' = ix\<lparr>trace := trace ix @ [OpenRead p]\<rparr>\<lparr>trace := trace (ix\<lparr>trace := trace ix @ [OpenRead p]\<rparr>) @ map (\<lambda>(v, p). OpenRead p) (take (Suc k) rest)\<rparr>"
      "\<forall>j<k. fs_read fs (snd (rest ! j)) \<noteq> None"
      by blast
    from k(5) x Some have first: "\<forall>j<Suc k. fs_read fs (snd ((x # rest) ! j)) \<noteq> None"
      by (auto simp: nth_Cons split: nat.splits)
    from k(1-4) have "Suc k < length (x # rest) \<and> fs_read fs (snd ((x # rest) ! Suc k)) = None
      \<and> e = ReadError (snd ((x # rest) ! Suc k))
      \<and> ix' = ix\<lparr>trace := trace ix @ map (\<lambda>(v, p). OpenRead p) (take (Suc (Suc k)) (x # rest))\<rparr>"
      using x by simp
    with first show ?thesis by blast
  qed
qed

lemma load_texts_unreadable:
  "(v, p) \<in> set items \<Longrightarrow> fs_read fs p = None \<Longrightarrow> \<exists>e ix'. load_texts fs items texts ix = (Inl e, ix')"
proof (induction items arbitrary: texts ix)
  case Nil
  then show ?case by simp
next
  case (Cons x rest)
  obtain v' p' where x: "x = (v', p')" by (cases x)
  show ?case
  proof (cases "fs_read fs p'")
    case None
    with x show ?thesis by (simp add: Let_def)
  next
    case (Some t)
    with Cons.prems x have "(v, p) \<in> set rest" by auto
    from Cons.IH [OF this Cons.prems(2)] x Some show ?thesis by (simp add: Let_def)
  qed
qed

lemma load_texts_readable:
  "map (\<lambda>(v, p). fs_read fs p) items = map Some new \<Longrightarrow>
   load_texts fs items texts ix =
     (Inr (texts @ new), ix\<lparr>trace := trace ix @ map (\<lambda>(v, p). OpenRead p) items\<rparr>)"
proof (induction items arbitrary: texts ix new)
  case Nil
  then show ?case by simp
next
  case (Cons x rest)
  obtain v p where x: "x = (v, p)" by (cases x)
  from Cons.prems x obtain t new' where n: "new = t # new'" "fs_read fs p = Some t"
    "map (\<lambda>(v, p). fs_read fs p) rest = map Some new'"
    by (cases new) auto
  from Cons.IH [OF n(3)] x n show ?case by (simp add: Let_def)
qed


lemma store_note_fields [simp]:
  "vaults (store_note rel v m emb ix) = vaults ix"
  "encoder (store_note rel v m emb ix) = encoder ix"
  "ingest_queue (store_note rel v m emb ix) = ingest_queue ix"
  "directory_watchers (store_note rel v m emb ix) = directory_watchers ix"
  "ingest_batch_size (store_note rel v m emb ix) = ingest_batch_size ix"
  "model_batch_size (store_note rel v m emb ix) = model_batch_size ix"
  "warnings (store_note rel v m emb ix) = warnings ix"
  "trace (store_note rel v m emb ix) = trace ix @ [StoreNote rel v m emb]"
  "database (store_note rel v m emb ix) = upsert (v, rel) (m, emb) (database ix)"
  by (simp_all add: store_note_def)

lemma store_embeddings_frame:
  "store_embeddings fs items embs ix = (r, ix') \<Longrightarrow>
     ix' = ix\<lparr>database := database ix', trace := trace ix'\<rparr>"
proof (induction fs items embs ix rule: store_embeddings.induct)
  case (4 fs vault_name p xs emb embs ix)
  show ?case
  proof (cases "map_of (vaults ix) vault_name")
    case None
    with 4 show ?thesis by auto
  next
    case (Some root)
    show ?thesis
    proof (cases "relative_to p root")
      case (Inl e)
      with 4 Some show ?thesis by auto
    next
      case (Inr rel)
      show ?thesis
      proof (cases "fs_mtime fs p")
        case None
        with 4 Some Inr show ?thesis by (auto simp: Let_def)
      next
        case (Some m)
        let ?ix1 = "store_note rel vault_name m emb (ix\<lparr>trace := trace ix @ [StatFile p]\<rparr>)"
        from "4.prems" \<open>map_of (vaults ix) vault_name = Some root\<close> Inr Some
        have rec: "store_embeddings fs xs embs ?ix1 = (r, ix')" by (simp add: Let_def)
        from "4.IH" [OF \<open>map_of (vaults ix) vault_name = Some root\<close> Inr refl Some rec]
        have "ix' = ?ix1\<lparr>database := database ix', trace := trace ix'\<rparr>" .
        then show ?thesis by (simp add: store_note_def)
      qed
    qed
  qed
qed auto

lemma store_embeddings_trace:
  "store_embeddings fs items embs ix = (r, ix') \<Longrightarrow>
     \<exists>recs tail.
       length recs \<le> length items \<and> length recs \<le> length embs
     \<and> list_all2 (\<lambda>(v, p) (rel, m). \<exists>root. map_of (vaults ix) v = Some root
           \<and> relative_to p root = Inr rel \<and> fs_mtime fs p = Some m) (take (length recs) items) recs
     \<and> trace ix' = trace ix
          @ concat (map (\<lambda>((v, p), (rel, m), emb). [StatFile p, StoreNote rel v m emb])
                      (zip items (zip recs embs))) @ tail
     \<and> database ix' = fold (\<lambda>((v, p), (rel, m), emb). upsert (v, rel) (m, emb))
                         (zip items (zip recs embs)) (database ix)
     \<and> (tail = [] \<or> (\<exists>q. tail = [StatFile q]))
     \<and> (r = Inr () \<longleftrightarrow> length recs = length items \<and> length embs = length items \<and> tail = [])"
proof (induction fs items embs ix rule: store_embeddings.induct)
  case (1 fs ix)
  then show ?case by simp
next
  case (2 fs x xs ix)
  then have "trace ix' = trace ix" "database ix' = database ix" "r \<noteq> Inr ()" by auto
  then show ?case by (intro exI [of _ "[]"]) simp
next
  case (3 fs emb embs ix)
  then have "trace ix' = trace ix" "database ix' = database ix" "r \<noteq> Inr ()" by auto
  then show ?case by (intro exI [of _ "[]"]) simp
next
  case (4 fs vault_name p xs emb embs ix)
  show ?case
  proof (cases "map_of (vaults ix) vault_name")
    case None
    with "4.prems" have "trace ix' = trace ix" "database ix' = database ix" "r \<noteq> Inr ()" by auto
    then show ?thesis by (intro exI [of _ "[]"]) simp
  next
    case (Some root)
    note root = this
    show ?thesis
    proof (cases "relative_to p root")
      case (Inl e)
      with "4.prems" root have "trace ix' = trace ix" "database ix' = database ix" "r \<noteq> Inr ()" by auto
      then show ?thesis by (intro exI [of _ "[]"]) simp
    next
      case (Inr rel)
      show ?thesis
      proof (cases "fs_mtime fs p")
        case None
        with "4.prems" root Inr
        have "trace ix' = trace ix @ [StatFile p]" "database ix' = database ix" "r \<noteq> Inr ()"
          by (auto simp: Let_def)
        then show ?thesis by (intro exI [of _ "[]"] exI [of _ "[StatFile p]"]) simp
      next
        case (Some m)
        let ?ix1 = "store_note rel vault_name m emb (ix\<lparr>trace := trace ix @ [StatFile p]\<rparr>)"
        from "4.prems" root Inr Some
        have rec: "store_embeddings fs xs embs ?ix1 = (r, ix')" by (simp add: Let_def)
        from "4.IH" [OF root Inr refl Some rec]
        obtain recs tail where ih:
          "length recs \<le> length xs" "length recs \<le> length embs"
          "list_all2 (\<lambda>(v, p) (rel, m). \<exists>root. map_of (vaults ?ix1) v = Some root
             \<and> relative_to p root = Inr rel \<and> fs_mtime fs p = Some m) (take (length recs) xs) recs"
          "trace ix' = trace ?ix1
             @ concat (map (\<lambda>((v, p), (rel, m), emb). [StatFile p, StoreNote rel v m emb])
                         (zip xs (zip recs embs))) @ tail"
          "database ix' = fold (\<lambda>((v, p), (rel, m), emb). upsert (v, rel) (m, emb))
                            (zip xs (zip recs embs)) (database ?ix1)"
          "tail = [] \<or> (\<exists>q. tail = [StatFile q])"
          "r = Inr () \<longleftrightarrow> length recs = length xs \<and> length embs = length xs \<and> tail = []"
          by blast
        show ?thesis
          using ih root Inr Some
          by (intro exI [of _ "(rel, m) # recs"] exI [of _ tail]) simp
      qed
    qed
  qed
qed

subsection \<open>One ingestion, case by case\<close>

lemma upserts_append [simp]: "upserts (a @ b) = upserts a @ upserts b"
  by (induction a rule: upserts.induct) simp_all

lemma reads_append [simp]: "reads (a @ b) = reads a @ reads b"
  by (induction a rule: reads.induct) simp_all

lemma encoder_calls_append [simp]: "encoder_calls (a @ b) = encoder_calls a @ encoder_calls b"
  by (induction a rule: encoder_calls.induct) simp_all

lemma searches_append [simp]: "searches (a @ b) = searches a @ searches b"
  by (induction a rule: searches.induct) simp_all

lemma observe_reads [simp]:
  "reads (map (\<lambda>(v, p). OpenRead p) items) = map snd items"
  "encoder_calls (map (\<lambda>(v, p). OpenRead p) items) = []"
  "upserts (map (\<lambda>(v, p). OpenRead p) items) = []"
  "searches (map (\<lambda>(v, p). OpenRead p) items) = []"
  by (induction items) auto

lemma observe_stores [simp]:
  "reads (concat (map (\<lambda>((v, p), (rel, m), emb). [StatFile p, StoreNote rel v m emb]) zs)) = []"
  "encoder_calls (concat (map (\<lambda>((v, p), (rel, m), emb). [StatFile p, StoreNote rel v m emb]) zs)) = []"
  "upserts (concat (map (\<lambda>((v, p), (rel, m), emb). [StatFile p, StoreNote rel v m emb]) zs))
     = map (\<lambda>((v, p), (rel, m), emb). (v, rel, m, emb)) zs"
  "searches (concat (map (\<lambda>((v, p), (rel, m), emb). [StatFile p, StoreNote rel v m emb]) zs)) = []"
  by (induction zs) auto

lemma do_ingest_paths_cases:
  assumes "do_ingest_paths fs items ix = (r, ix')"
  obtains (read_error) k where
      "k < length items" "fs_read fs (snd (items ! k)) = None"
      "r = Inl (ReadError (snd (items ! k)))"
      "ix' = ix\<lparr>trace := trace ix @ map (\<lambda>(v, p). OpenRead p) (take (Suc k) items)\<rparr>"
      "\<forall>j<k. fs_read fs (snd (items ! j)) \<noteq> None"
  | (encoder_error) texts e where
      "map (\<lambda>(v, p). fs_read fs p) items = map Some texts"
      "encoder ix texts (model_batch_size ix) = Inl e" "r = Inl e"
      "ix' = ix\<lparr>trace := trace ix @ map (\<lambda>(v, p). OpenRead p) items
                      @ [EncodeDocuments texts (model_batch_size ix)]\<rparr>"
  | (stored) texts embs recs tail where
      "map (\<lambda>(v, p). fs_read fs p) items = map Some texts"
      "encoder ix texts (model_batch_size ix) = Inr embs"
      "length recs \<le> length items" "length recs \<le> length embs"
      "list_all2 (\<lambda>(v, p) (rel, m). \<exists>root. map_of (vaults ix) v = Some root
           \<and> relative_to p root = Inr rel \<and> fs_mtime fs p = Some m) (take (length recs) items) recs"
      "trace ix' = trace ix @ map (\<lambda>(v, p). OpenRead p) items
          @ [EncodeDocuments texts (model_batch_size ix)]
          @ concat (map (\<lambda>((v, p), (rel, m), emb). [StatFile p, StoreNote rel v m emb])
                      (zip items (zip recs embs))) @ tail"
      "database ix' = fold (\<lambda>((v, p), (rel, m), emb). upsert (v, rel) (m, emb))
                         (zip items (zip recs embs)) (database ix)"
      "tail = [] \<or> (\<exists>q. tail = [StatFile q])"
      "r = Inr () \<longleftrightarrow> length recs = length items \<and> length embs = length items \<and> tail = []"
      "ix' = ix\<lparr>database := database ix', trace := trace ix'\<rparr>"
proof (cases "load_texts fs items [] ix")
  case (Pair lr ix1)
  show ?thesis
  proof (cases lr)
    case (Inl e)
    with Pair assms have "r = Inl e" "ix' = ix1" by (auto simp: do_ingest_paths_def)
    with load_texts_Inl [of fs items "[]" ix e ix1] Pair Inl read_error show ?thesis by blast
  next
    case (Inr texts)
    from load_texts_Inr [of fs items "[]" ix texts ix1] Pair Inr
    have t: "map (\<lambda>(v, p). fs_read fs p) items = map Some texts"
      and ix1: "ix1 = ix\<lparr>trace := trace ix @ map (\<lambda>(v, p). OpenRead p) items\<rparr>" by auto
    let ?ix2 = "ix\<lparr>trace := trace ix @ map (\<lambda>(v, p). OpenRead p) items
                      @ [EncodeDocuments texts (model_batch_size ix)]\<rparr>"
    show ?thesis
    proof (cases "encoder ix texts (model_batch_size ix)")
      case (Inl e)
      with Pair Inr ix1 assms have "r = Inl e" "ix' = ?ix2" by (auto simp: do_ingest_paths_def Let_def)
      with t Inl encoder_error show ?thesis by blast
    next
      case (Inr embs)
      with Pair \<open>lr = Inr texts\<close> ix1 assms
      have st: "store_embeddings fs items embs ?ix2 = (r, ix')"
        by (auto simp: do_ingest_paths_def Let_def)
      from store_embeddings_frame [OF st]
      have fr: "ix' = ix\<lparr>database := database ix', trace := trace ix'\<rparr>" by simp
      from store_embeddings_trace [OF st] obtain recs tail where
        "length recs \<le> length items" "length recs \<le> length embs"
        "list_all2 (\<lambda>(v, p) (rel, m). \<exists>root. map_of (vaults ix) v = Some root
           \<and> relative_to p root = Inr rel \<and> fs_mtime fs p = Some m) (take (length recs) items) recs"
        "trace ix' = trace ix @ map (\<lambda>(v, p). OpenRead p) items
          @ [EncodeDocuments texts (model_batch_size ix)]
          @ concat (map (\<lambda>((v, p), (rel, m), emb). [StatFile p, StoreNote rel v m emb])
                      (zip items (zip recs embs))) @ tail"
        "database ix' = fold (\<lambda>((v, p), (rel, m), emb). upsert (v, rel) (m, emb))
                         (zip items (zip recs embs)) (database ix)"
        "tail = [] \<or> (\<exists>q. tail = [StatFile q])"
        "r = Inr () \<longleftrightarrow> length recs = length items \<and> length embs = length items \<and> tail = []"
        by auto
      with t Inr fr stored show ?thesis by blast
    qed
  qed
qed

lemma all_readable:
  "map (\<lambda>(v, p). fs_read fs p) items = map Some texts \<Longrightarrow> (v, p) \<in> set items \<Longrightarrow> fs_read fs p \<noteq> None"
proof -
  assume a: "map (\<lambda>(v, p). fs_read fs p) items = map Some texts" and b: "(v, p) \<in> set items"
  from b have "fs_read fs p \<in> set (map (\<lambda>(v, p). fs_read fs p) items)" by force
  with a show ?thesis by auto
qed

lemma do_ingest_paths_read_error:
  assumes "(v, p) \<in> set items" "fs_read fs p = None"
  shows "\<exists>k<length items. fs_read fs (snd (items ! k)) = None
      \<and> (\<forall>j<k. fs_read fs (snd (items ! j)) \<noteq> None)
      \<and> do_ingest_paths fs items ix =
          (Inl (ReadError (snd (items ! k))),
           ix\<lparr>trace := trace ix @ map (\<lambda>(v, p). OpenRead p) (take (Suc k) items)\<rparr>)"
proof (cases "do_ingest_paths fs items ix")
  case (Pair r ix')
  from Pair show ?thesis
  proof (cases rule: do_ingest_paths_cases)
    case (read_error k)
    with Pair show ?thesis by auto
  next
    case (encoder_error texts e)
    with all_readable [OF encoder_error(1) assms(1)] assms(2) show ?thesis by simp
  next
    case (stored texts embs recs tail)
    with all_readable [OF stored(1) assms(1)] assms(2) show ?thesis by simp
  qed
qed

lemma scenario_indexer_fields:
  "database scenario_indexer = []" "vaults scenario_indexer = [(''V'', [''V''])]"
  "encoder scenario_indexer = scenario_encoder" "ingest_queue scenario_indexer = []"
  "ingest_batch_size scenario_indexer = 2" "model_batch_size scenario_indexer = 16"
  "trace scenario_indexer = [Rglob [''V'']]" "warnings scenario_indexer = []"
  by (simp_all add: scenario_indexer_def Indexer_def num_notes_def
      enqueue_all_note_paths_for_ingestion_def find_all_note_paths_def scenario_fs_def)

lemma store_embeddings_ok:
  "\<forall>(v, p) \<in> set (take (length embs) items). \<exists>root rel m. map_of (vaults ix) v = Some root
       \<and> relative_to p root = Inr rel \<and> fs_mtime fs p = Some m \<Longrightarrow>
   store_embeddings fs items embs ix = (r, ix') \<Longrightarrow>
     r = (if length embs < length items then Inl ValueError_zip_shorter
          else if length items < length embs then Inl ValueError_zip_longer else Inr ())
   \<and> length (upserts (trace ix')) = length (upserts (trace ix)) + min (length items) (length embs)"
proof (induction fs items embs ix rule: store_embeddings.induct)
  case (4 fs vault_name p xs emb embs ix)
  from "4.prems"(1) obtain root rel m where ok: "map_of (vaults ix) vault_name = Some root"
    "relative_to p root = Inr rel" "fs_mtime fs p = Some m" by auto
  let ?ix1 = "store_note rel vault_name m emb (ix\<lparr>trace := trace ix @ [StatFile p]\<rparr>)"
  from "4.prems"(2) ok have rec: "store_embeddings fs xs embs ?ix1 = (r, ix')" by (simp add: Let_def)
  from "4.prems"(1) have "\<forall>(v, p) \<in> set (take (length embs) xs). \<exists>root rel m.
      map_of (vaults ?ix1) v = Some root \<and> relative_to p root = Inr rel \<and> fs_mtime fs p = Some m"
    by auto
  from "4.IH" [OF ok(1) ok(2) refl ok(3) this rec] show ?case by simp
qed auto

lemma fold_enqueue:
  "fold (\<lambda>(v, p). enqueue_path_for_ingestion fs v p) items ix =
     ix\<lparr>ingest_queue := ingest_queue ix @ filter (\<lambda>(v, p). fs_is_file fs p) items,
        warnings := warnings ix
          @ map (\<lambda>(v, p). Path_is_not_a_file p) (filter (\<lambda>(v, p). \<not> fs_is_file fs p) items)\<rparr>"
proof (induction items arbitrary: ix)
  case Nil
  then show ?case by simp
next
  case (Cons x items)
  obtain v p where x: "x = (v, p)" by (cases x)
  show ?case
  proof (cases "fs_is_file fs p")
    case True
    then have "enqueue_path_for_ingestion fs v p ix = ix\<lparr>ingest_queue := ingest_queue ix @ [(v, p)]\<rparr>"
      by (simp add: enqueue_path_for_ingestion_def)
    with True x show ?thesis by (simp add: Cons.IH)
  next
    case False
    then have "enqueue_path_for_ingestion fs v p ix = ix\<lparr>warnings := warnings ix @ [Path_is_not_a_file p]\<rparr>"
      by (simp add: enqueue_path_for_ingestion_def)
    with False x show ?thesis by (simp add: Cons.IH)
  qed
qed

lemma filter_find_all:
  "filter (\<lambda>(v, p). fs_is_file fs p)
     (concat (map (\<lambda>(vault_name, root). map (Pair vault_name) (fs_rglob_md fs root)) vs))
   = concat (map (\<lambda>(vault_name, root).
       map (Pair vault_name) (filter (fs_is_file fs) (fs_rglob_md fs root))) vs)"
  by (induction vs) (auto simp: filter_map comp_def)

lemma enqueue_all_eq:
  "enqueue_all_note_paths_for_ingestion fs ix =
     ix\<lparr>ingest_queue := ingest_queue ix
          @ concat (map (\<lambda>(vault_name, root).
              map (Pair vault_name) (filter (fs_is_file fs) (fs_rglob_md fs root))) (vaults ix)),
        trace := trace ix @ map (\<lambda>(vault_name, root). Rglob root) (vaults ix),
        warnings := warnings ix
          @ map (\<lambda>(v, p). Path_is_not_a_file p)
              (filter (\<lambda>(v, p). \<not> fs_is_file fs p) (find_all_note_paths fs ix))\<rparr>"
  by (simp add: enqueue_all_note_paths_for_ingestion_def fold_enqueue find_all_note_paths_def
      filter_find_all)

lemma Indexer_fields:
  "database (Indexer fs db vs enc watch ibs mbs) = db"
  "vaults (Indexer fs db vs enc watch ibs mbs) = vs"
  "encoder (Indexer fs db vs enc watch ibs mbs) = enc"
  "ingest_batch_size (Indexer fs db vs enc watch ibs mbs) = ibs"
  "model_batch_size (Indexer fs db vs enc watch ibs mbs) = mbs"
  "directory_watchers (Indexer fs db vs enc watch ibs mbs) = (if watch then vs else [])"
  "ingest_queue (Indexer fs db vs enc watch ibs mbs) =
     (if num_notes db = 0
      then concat (map (\<lambda>(vault_name, root).
             map (Pair vault_name) (filter (fs_is_file fs) (fs_rglob_md fs root))) vs)
      else [])"
  "trace (Indexer fs db vs enc watch ibs mbs) =
     (if num_notes db = 0 then map (\<lambda>(vault_name, root). Rglob root) vs else [])"
  by (simp_all add: Indexer_def Let_def enqueue_all_eq)

lemma bootstrap_paths:
  "map snd (concat (map (\<lambda>(vault_name, root).
       map (Pair vault_name) (filter (fs_is_file fs) (fs_rglob_md fs root))) vs))
   = filter (fs_is_file fs) (concat (map (\<lambda>(vault_name, root). fs_rglob_md fs root) vs))"
  by (induction vs) (auto simp: comp_def)

lemma distinct_bootstrap_paths:
  "distinct (concat (map (\<lambda>(vault_name, root). fs_rglob_md fs root) vs)) \<Longrightarrow>
   distinct (map snd (concat (map (\<lambda>(vault_name, root).
       map (Pair vault_name) (filter (fs_is_file fs) (fs_rglob_md fs root))) vs)))"
  by (simp only: bootstrap_paths distinct_filter)

lemma distinct_bootstrap:
  "distinct (map fst vs) \<Longrightarrow> \<forall>(v, root) \<in> set vs. distinct (fs_rglob_md fs root) \<Longrightarrow>
   distinct (concat (map (\<lambda>(vault_name, root).
       map (Pair vault_name) (filter (fs_is_file fs) (fs_rglob_md fs root))) vs))"
proof (induction vs)
  case Nil
  then show ?case by simp
next
  case (Cons x vs)
  obtain v root where x: "x = (v, root)" by (cases x)
  from Cons.prems x have d: "distinct (map (Pair v) (filter (fs_is_file fs) (fs_rglob_md fs root)))"
    by (simp add: distinct_map inj_on_def)
  from Cons.prems x have "v \<notin> fst ` set vs" by simp
  then have disj: "set (map (Pair v) (filter (fs_is_file fs) (fs_rglob_md fs root)))
      \<inter> set (concat (map (\<lambda>(vault_name, root).
            map (Pair vault_name) (filter (fs_is_file fs) (fs_rglob_md fs root))) vs)) = {}"
    by force
  from Cons d disj x show ?case by simp
qed








lemma rfind_dot_Some:
  "rfind_dot s = Some i \<Longrightarrow> i < length s \<and> s ! i = CHR ''.''"
proof (induction s arbitrary: i)
  case Nil
  then show ?case by simp
next
  case (Cons c cs)
  then show ?case by (cases "rfind_dot cs") (auto split: if_splits)
qed

lemma suffix_md_name:
  assumes "suffix p = ''.md''"
  shows "\<exists>stem. stem \<noteq> [] \<and> name p = stem @ ''.md''"
proof -
  from assms obtain i where i: "rfind_dot (name p) = Some i" "0 < i" "drop i (name p) = ''.md''"
    by (auto simp: suffix_def split: option.splits if_splits)
  have "name p = take i (name p) @ drop i (name p)" by simp
  with i(3) have n: "name p = take i (name p) @ ''.md''" by simp
  from rfind_dot_Some [OF i(1)] i(2) have "take i (name p) \<noteq> []" by auto
  with n show ?thesis by blast
qed

lemma suffix_name: "name p = name q \<Longrightarrow> suffix p = suffix q"
  by (simp add: suffix_def split: option.splits)

lemma embed_resources_readable:
  "map (fs_read fs) paths = map Some texts \<Longrightarrow>
   embed_resources fs file_url paths tr =
     (Inr (map (\<lambda>(p, t). resource_of file_url p t) (zip paths texts)), tr @ map OpenRead paths)"
proof (induction paths arbitrary: tr texts)
  case Nil
  then show ?case by simp
next
  case (Cons p paths)
  from Cons.prems obtain t ts where t: "texts = t # ts" "fs_read fs p = Some t"
    "map (fs_read fs) paths = map Some ts"
    by (cases texts) auto
  from Cons.IH [OF t(3)] t show ?case by simp
qed

lemma embed_resources_trace:
  "embed_resources fs file_url paths tr = (r, tr') \<Longrightarrow>
     \<exists>k \<le> length paths. tr' = tr @ map OpenRead (take k paths)
       \<and> (\<forall>e. r = Inl e \<longrightarrow> 0 < k \<and> e = ReadError (paths ! (k - 1))
              \<and> fs_read fs (paths ! (k - 1)) = None)
       \<and> (\<forall>rs. r = Inr rs \<longrightarrow> k = length paths)"
proof (induction paths arbitrary: tr r tr')
  case Nil
  then show ?case by auto
next
  case (Cons p paths)
  show ?case
  proof (cases "fs_read fs p")
    case None
    with Cons.prems have "r = Inl (ReadError p)" "tr' = tr @ [OpenRead p]" by auto
    with None show ?thesis by (intro exI [of _ "Suc 0"]) simp
  next
    case (Some t)
    obtain r1 tr1 where rec: "embed_resources fs file_url paths (tr @ [OpenRead p]) = (r1, tr1)"
      by (cases "embed_resources fs file_url paths (tr @ [OpenRead p])")
    from Cons.IH [OF rec] obtain k where k: "k \<le> length paths"
      "tr1 = (tr @ [OpenRead p]) @ map OpenRead (take k paths)"
      "\<forall>e. r1 = Inl e \<longrightarrow> 0 < k \<and> e = ReadError (paths ! (k - 1)) \<and> fs_read fs (paths ! (k - 1)) = None"
      "\<forall>rs. r1 = Inr rs \<longrightarrow> k = length paths"
      by blast
    from Cons.prems Some rec have r: "tr' = tr1" "(\<forall>e. r = Inl e \<longrightarrow> r1 = Inl e)"
      "(\<forall>rs. r = Inr rs \<longrightarrow> (\<exists>rs1. r1 = Inr rs1))"
      by (cases r1; auto)+
    with k show ?thesis
      by (intro exI [of _ "Suc k"]) (auto simp: nth_Cons')
  qed
qed

lemma observe_open [simp]:
  "upserts (map OpenRead ps) = []" "encoder_calls (map OpenRead ps) = []"
  "searches (map OpenRead ps) = []" "reads (map OpenRead ps) = ps"
  by (induction ps) auto

lemma handle_call_tool_valid:
  "map_of args ''query'' = Some query \<Longrightarrow> query \<noteq> [] \<Longrightarrow>
   handle_call_tool fs search file_url ''search-notes'' (Some args) tr =
     embed_resources fs file_url (search query) (tr @ [Search query])"
  by (auto simp: handle_call_tool_def)

lemma handle_call_tool_frame:
  "upserts (snd (handle_call_tool fs search file_url tool_name arguments tr)) = upserts tr
   \<and> encoder_calls (snd (handle_call_tool fs search file_url tool_name arguments tr)) = encoder_calls tr"
proof -
  have e: "upserts (snd (embed_resources fs file_url paths tr0)) = upserts tr0
      \<and> encoder_calls (snd (embed_resources fs file_url paths tr0)) = encoder_calls tr0" for paths tr0
  proof -
    obtain r tr' where x: "embed_resources fs file_url paths tr0 = (r, tr')"
      by (cases "embed_resources fs file_url paths tr0")
    from embed_resources_trace [OF x] obtain k where "tr' = tr0 @ map OpenRead (take k paths)"
      by blast
    with x show ?thesis by simp
  qed
  show ?thesis
    by (simp add: handle_call_tool_def e split: option.splits)
qed

lemma embed_resources_calls:
  "snd (embed_resources fs file_url paths (tr @ [Search query])) \<noteq> tr"
proof -
  obtain r tr' where x: "embed_resources fs file_url paths (tr @ [Search query]) = (r, tr')"
    by (cases "embed_resources fs file_url paths (tr @ [Search query])")
  from embed_resources_trace [OF x] obtain k where
    "tr' = (tr @ [Search query]) @ map OpenRead (take k paths)" by blast
  then have "length tr' > length tr" by simp
  with x show ?thesis by auto
qed

lemma embed_resources_first:
  "p \<in> set paths \<Longrightarrow> fs_read fs p = None \<Longrightarrow>
     \<exists>k < length paths. fs_read fs (paths ! k) = None
       \<and> (\<forall>j<k. fs_read fs (paths ! j) \<noteq> None)
       \<and> embed_resources fs file_url paths tr
           = (Inl (ReadError (paths ! k)), tr @ map OpenRead (take (Suc k) paths))"
proof (induction paths arbitrary: tr)
  case Nil
  then show ?case by simp
next
  case (Cons a paths)
  show ?case
  proof (cases "fs_read fs a")
    case None
    then have "0 < length (a # paths) \<and> fs_read fs ((a # paths) ! 0) = None
       \<and> (\<forall>j<0. fs_read fs ((a # paths) ! j) \<noteq> None)
       \<and> embed_resources fs file_url (a # paths) tr
           = (Inl (ReadError ((a # paths) ! 0)), tr @ map OpenRead (take (Suc 0) (a # paths)))"
      by simp
    then show ?thesis by blast
  next
    case (Some t)
    with Cons.prems have "p \<in> set paths" by auto
    from Cons.IH [OF this Cons.prems(2), of "tr @ [OpenRead a]"] obtain k where
      k: "k < length paths" "fs_read fs (paths ! k) = None"
      "\<forall>j<k. fs_read fs (paths ! j) \<noteq> None"
      "embed_resources fs file_url paths (tr @ [OpenRead a])
           = (Inl (ReadError (paths ! k)), (tr @ [OpenRead a]) @ map OpenRead (take (Suc k) paths))"
      by blast
    from k(3) Some have first: "\<forall>j<Suc k. fs_read fs ((a # paths) ! j) \<noteq> None"
      by (auto simp: nth_Cons split: nat.splits)
    from k(1,2,4) Some have "Suc k < length (a # paths) \<and> fs_read fs ((a # paths) ! Suc k) = None
       \<and> embed_resources fs file_url (a # paths) tr
           = (Inl (ReadError ((a # paths) ! Suc k)), tr @ map OpenRead (take (Suc (Suc k)) (a # paths)))"
      by simp
    with first show ?thesis by blast
  qed
qed










section \<open>The claims\<close>



text \<open>
  C2. One iteration of the control loop, case by case. On a shutdown request it
  exits. With a request pending, the searcher is called with its query, the paths
  are placed as the response, the slot is cleared, and that is all: the ingestion
  queue and the indexer are untouched but for the record of the search, however much
  is queued. So a pending request is serviced first, and never together with ingestion
  work. With no request pending and nothing queued, nothing happens. With no request
  pending and items queued, no search is made and one batch (the first
  \<open>ingest_batch_size\<close> items, or all of them) is taken off the queue; but the batch is
  not ingested: \<^verbatim>\<open>default_work\<close> calls \<^verbatim>\<open>self.indexer.ingest_paths\<close>, which the
  \<^verbatim>\<open>Indexer\<close> does not have, so the iteration ends with \<^verbatim>\<open>AttributeError\<close>, the indexer
  as it was (no read, no encoder call, no upsert) and the batch lost. The claim's
  "exactly one ingestion batch" is what \<^verbatim>\<open>Indexer._do_ingest_batch\<close> does, through
  \<^verbatim>\<open>self._do_ingest_paths\<close>; here the code misses it.
\<close>

theorem C2_control_loop_body:
  "(shutdown_requested w \<longrightarrow> control_loop_body w = (Inr False, w))
   \<and> (\<not> shutdown_requested w \<longrightarrow>
        (pending_request w = Some query \<longrightarrow>
           control_loop_body w =
             (Inr True,
              w\<lparr>w_indexer := (w_indexer w)\<lparr>trace := trace (w_indexer w) @ [Search query]\<rparr>,
                response := Some (searcher w query), pending_request := None\<rparr>))
      \<and> (pending_request w = None \<and> w_ingest_queue w = [] \<longrightarrow>
           control_loop_body w = (Inr True, w))
      \<and> (pending_request w = None \<and> w_ingest_queue w \<noteq> [] \<longrightarrow>
           control_loop_body w =
             (Inl (AttributeError ''ingest_paths''),
              w\<lparr>w_ingest_queue := drop (nat (w_ingest_batch_size w)) (w_ingest_queue w)\<rparr>)))"
  by (simp add: control_loop_body_def process_message_def default_work_available_def
      default_work_eq Let_def)

theorem C2_control_loop_body_witness:
  "\<not> shutdown_requested scenario_worker
   \<and> pending_request scenario_worker = Some ''haskell''
   \<and> control_loop_body scenario_worker =
       (Inr True,
        scenario_worker\<lparr>w_indexer := scenario_indexer\<lparr>trace := [Rglob [''V''], Search ''haskell'']\<rparr>,
          response := Some [[''V'', ''b.md''], [''V'', ''a.md'']], pending_request := None\<rparr>)
   \<and> \<not> shutdown_requested (scenario_worker\<lparr>pending_request := None\<rparr>)
   \<and> pending_request (scenario_worker\<lparr>pending_request := None\<rparr>) = None
   \<and> w_ingest_queue (scenario_worker\<lparr>pending_request := None\<rparr>) \<noteq> []
   \<and> control_loop_body (scenario_worker\<lparr>pending_request := None\<rparr>) =
       (Inl (AttributeError ''ingest_paths''),
        scenario_worker\<lparr>pending_request := None, w_ingest_queue := [(''V'', [''V'', ''a.md''])]\<rparr>)
   \<and> upserts (trace (w_indexer (snd (control_loop_body (scenario_worker\<lparr>pending_request := None\<rparr>)))))
       = []
   \<and> reads (trace (w_indexer (snd (control_loop_body (scenario_worker\<lparr>pending_request := None\<rparr>)))))
       = []
   \<and> shutdown_requested (scenario_worker\<lparr>shutdown_requested := True\<rparr>)
   \<and> control_loop_body (scenario_worker\<lparr>shutdown_requested := True\<rparr>)
       = (Inr False, scenario_worker\<lparr>shutdown_requested := True\<rparr>)"
proof -
  have h: "\<not> shutdown_requested scenario_worker" "pending_request scenario_worker = Some ''haskell''"
    "\<not> shutdown_requested (scenario_worker\<lparr>pending_request := None\<rparr>)"
    "pending_request (scenario_worker\<lparr>pending_request := None\<rparr>) = None"
    "w_ingest_queue (scenario_worker\<lparr>pending_request := None\<rparr>) \<noteq> []"
    "shutdown_requested (scenario_worker\<lparr>shutdown_requested := True\<rparr>)"
    by (simp_all add: scenario_worker_def)
  have f: "w_indexer scenario_worker = scenario_indexer"
    "searcher scenario_worker ''haskell'' = [[''V'', ''b.md''], [''V'', ''a.md'']]"
    "w_ingest_batch_size scenario_worker = 2"
    "w_ingest_queue scenario_worker
       = [(''V'', [''V'', ''a.md'']), (''V'', [''V'', ''b.md'']), (''V'', [''V'', ''a.md''])]"
    by (simp_all add: scenario_worker_def)
  from h
    C2_control_loop_body [where w = scenario_worker and query = "''haskell''"]
    C2_control_loop_body [where w = "scenario_worker\<lparr>pending_request := None\<rparr>"]
    C2_control_loop_body [where w = "scenario_worker\<lparr>shutdown_requested := True\<rparr>"]
  show ?thesis
    by (simp add: f scenario_indexer_fields)
qed

text \<open>
  C3. \<^verbatim>\<open>Indexer.__init__\<close> scans exactly when \<^verbatim>\<open>num_notes()\<close> is 0. Then it calls
  \<^verbatim>\<open>rglob("*.md")\<close> once on every vault root, in the order of the vaults, and the queue
  holds, in that order, every path a scan yielded that is a file, under the name of its
  vault; when the vault names are distinct (they are the keys of a dictionary) and no
  scan yields a path twice, no item is in the queue twice, and when no path is yielded
  twice by the scans taken together (the roots do not overlap), no path is in the
  queue twice. Otherwise there is no scan and the queue is empty. With an empty database and three roots whose scans yield 5, 0
  and 2 files, 7 items are enqueued, and one \<^verbatim>\<open>_do_ingest_batch\<close> with a batch size of 7
  or more succeeds, empties the queue and makes exactly 7 \<^verbatim>\<open>store_note\<close> calls.
\<close>

theorem C3_cold_bootstrap:
  "(num_notes db = 0 \<longrightarrow>
       ingest_queue (Indexer fs db vs enc watch ibs mbs) =
         concat (map (\<lambda>(vault_name, root).
           map (Pair vault_name) (filter (fs_is_file fs) (fs_rglob_md fs root))) vs)
     \<and> trace (Indexer fs db vs enc watch ibs mbs) = map (\<lambda>(vault_name, root). Rglob root) vs
     \<and> (distinct (map fst vs) \<and> (\<forall>(v, root) \<in> set vs. distinct (fs_rglob_md fs root)) \<longrightarrow>
          distinct (ingest_queue (Indexer fs db vs enc watch ibs mbs)))
     \<and> (distinct (concat (map (\<lambda>(vault_name, root). fs_rglob_md fs root) vs)) \<longrightarrow>
          distinct (map snd (ingest_queue (Indexer fs db vs enc watch ibs mbs)))))
   \<and> (num_notes db \<noteq> 0 \<longrightarrow>
       ingest_queue (Indexer fs db vs enc watch ibs mbs) = []
     \<and> trace (Indexer fs db vs enc watch ibs mbs) = [])
   \<and> database (Indexer fs db vs enc watch ibs mbs) = db
   \<and> length (ingest_queue (Indexer three_vaults_fs [] three_vaults scenario_encoder False 7 16)) = 7
   \<and> (7 \<le> n \<longrightarrow>
        (case do_ingest_batch three_vaults_fs
                (Indexer three_vaults_fs [] three_vaults scenario_encoder False n 16) of
           (r, ix') \<Rightarrow> r = Inr () \<and> ingest_queue ix' = [] \<and> length (upserts (trace ix')) = 7
             \<and> length (database ix') = 7))"
proof -
  have q: "ingest_queue (Indexer three_vaults_fs [] three_vaults scenario_encoder False ibs' 16)
     = [(''A'', [''A'', ''1.md'']), (''A'', [''A'', ''2.md'']), (''A'', [''A'', ''3.md'']),
        (''A'', [''A'', ''sub'', ''4.md'']), (''A'', [''A'', ''sub'', ''5.md'']),
        (''C'', [''C'', ''6.md'']), (''C'', [''C'', ''7.md''])]" for ibs'
    by (simp add: Indexer_fields num_notes_def three_vaults_def three_vaults_fs_def scenario_fs_def)
  have run: "7 \<le> n \<longrightarrow>
     (case do_ingest_batch three_vaults_fs
              (Indexer three_vaults_fs [] three_vaults scenario_encoder False n 16) of
        (r, ix') \<Rightarrow> r = Inr () \<and> ingest_queue ix' = [] \<and> length (upserts (trace ix')) = 7
          \<and> length (database ix') = 7)"
  proof
    assume "7 \<le> n"
    then have "7 \<le> nat n" by simp
    then have t: "take (nat n) (ingest_queue (Indexer three_vaults_fs [] three_vaults scenario_encoder False n 16))
        = ingest_queue (Indexer three_vaults_fs [] three_vaults scenario_encoder False n 16)"
      "drop (nat n) (ingest_queue (Indexer three_vaults_fs [] three_vaults scenario_encoder False n 16))
        = []"
      by (simp_all add: q)
    have f: "ingest_batch_size (Indexer three_vaults_fs [] three_vaults scenario_encoder False n 16) = n"
      by (simp add: Indexer_fields)
    show "case do_ingest_batch three_vaults_fs
              (Indexer three_vaults_fs [] three_vaults scenario_encoder False n 16) of
        (r, ix') \<Rightarrow> r = Inr () \<and> ingest_queue ix' = [] \<and> length (upserts (trace ix')) = 7
          \<and> length (database ix') = 7"
      unfolding do_ingest_batch_eq f t
      by (simp add: q Indexer_fields do_ingest_paths_def num_notes_def
        three_vaults_def three_vaults_fs_def scenario_fs_def scenario_encoder_def
        relative_to_def store_note_def)
  qed
  show ?thesis
    using distinct_bootstrap [of vs fs] distinct_bootstrap_paths [of fs vs] run
    by (simp add: Indexer_fields num_notes_def three_vaults_def three_vaults_fs_def scenario_fs_def)
qed

theorem C3_cold_bootstrap_witness:
  "num_notes [] = 0
   \<and> distinct (map fst three_vaults)
   \<and> list_all (\<lambda>(v, root). distinct (fs_rglob_md three_vaults_fs root)) three_vaults
   \<and> ingest_queue (Indexer three_vaults_fs [] three_vaults scenario_encoder False 7 16)
       = [(''A'', [''A'', ''1.md'']), (''A'', [''A'', ''2.md'']), (''A'', [''A'', ''3.md'']),
          (''A'', [''A'', ''sub'', ''4.md'']), (''A'', [''A'', ''sub'', ''5.md'']),
          (''C'', [''C'', ''6.md'']), (''C'', [''C'', ''7.md''])]
   \<and> distinct (ingest_queue (Indexer three_vaults_fs [] three_vaults scenario_encoder False 7 16))
   \<and> distinct (concat (map (\<lambda>(vault_name, root). fs_rglob_md three_vaults_fs root) three_vaults))
   \<and> distinct (map snd
         (ingest_queue (Indexer three_vaults_fs [] three_vaults scenario_encoder False 7 16)))
   \<and> trace (Indexer three_vaults_fs [] three_vaults scenario_encoder False 7 16)
       = [Rglob [''A''], Rglob [''B''], Rglob [''C'']]
   \<and> num_notes [((''A'', [''1.md'']), 3, [1])] \<noteq> 0
   \<and> ingest_queue (Indexer three_vaults_fs [((''A'', [''1.md'']), 3, [1])] three_vaults
        scenario_encoder False 7 16) = []
   \<and> trace (Indexer three_vaults_fs [((''A'', [''1.md'']), 3, [1])] three_vaults
        scenario_encoder False 7 16) = []
   \<and> (7::int) \<le> 32
   \<and> length (upserts (trace (snd (do_ingest_batch three_vaults_fs
        (Indexer three_vaults_fs [] three_vaults scenario_encoder False 32 16))))) = 7"
proof -
  have h: "num_notes [] = 0" "distinct (map fst three_vaults)"
    "\<forall>(v, root) \<in> set three_vaults. distinct (fs_rglob_md three_vaults_fs root)"
    "num_notes [((''A'', [''1.md'']), 3, [1])] \<noteq> 0" "(7::int) \<le> 32"
    "distinct (concat (map (\<lambda>(vault_name, root). fs_rglob_md three_vaults_fs root) three_vaults))"
    by (simp_all add: num_notes_def three_vaults_def three_vaults_fs_def)
  have l: "list_all (\<lambda>(v, root). distinct (fs_rglob_md three_vaults_fs root)) three_vaults"
    using h(3) by (simp add: list_all_iff)
  note cold = C3_cold_bootstrap [where db = "[]" and fs = three_vaults_fs and vs = three_vaults
      and enc = scenario_encoder and watch = False and ibs = 7 and mbs = 16 and n = 32]
  note warm = C3_cold_bootstrap [where db = "[((''A'', [''1.md'']), 3, [1])]"
      and fs = three_vaults_fs and vs = three_vaults and enc = scenario_encoder
      and watch = False and ibs = 7 and mbs = 16 and n = 32]
  from cold h have c: "ingest_queue (Indexer three_vaults_fs [] three_vaults scenario_encoder False 7 16) =
         concat (map (\<lambda>(vault_name, root).
           map (Pair vault_name) (filter (fs_is_file three_vaults_fs) (fs_rglob_md three_vaults_fs root)))
           three_vaults)"
    "trace (Indexer three_vaults_fs [] three_vaults scenario_encoder False 7 16)
       = map (\<lambda>(vault_name, root). Rglob root) three_vaults"
    "distinct (ingest_queue (Indexer three_vaults_fs [] three_vaults scenario_encoder False 7 16))"
    "distinct (map snd
       (ingest_queue (Indexer three_vaults_fs [] three_vaults scenario_encoder False 7 16)))"
    by blast+
  from cold have c4: "case do_ingest_batch three_vaults_fs
                (Indexer three_vaults_fs [] three_vaults scenario_encoder False 32 16) of
           (r, ix') \<Rightarrow> r = Inr () \<and> ingest_queue ix' = [] \<and> length (upserts (trace ix')) = 7
             \<and> length (database ix') = 7"
    by simp
  from warm h have w: "ingest_queue (Indexer three_vaults_fs [((''A'', [''1.md'']), 3, [1])] three_vaults
        scenario_encoder False 7 16) = []"
    "trace (Indexer three_vaults_fs [((''A'', [''1.md'']), 3, [1])] three_vaults
        scenario_encoder False 7 16) = []"
    by blast+
  from c4 have u: "length (upserts (trace (snd (do_ingest_batch three_vaults_fs
        (Indexer three_vaults_fs [] three_vaults scenario_encoder False 32 16))))) = 7"
    by (simp split: prod.splits)
  have e: "concat (map (\<lambda>(vault_name, root).
           map (Pair vault_name) (filter (fs_is_file three_vaults_fs) (fs_rglob_md three_vaults_fs root)))
           three_vaults)
       = [(''A'', [''A'', ''1.md'']), (''A'', [''A'', ''2.md'']), (''A'', [''A'', ''3.md'']),
          (''A'', [''A'', ''sub'', ''4.md'']), (''A'', [''A'', ''sub'', ''5.md'']),
          (''C'', [''C'', ''6.md'']), (''C'', [''C'', ''7.md''])]"
    "map (\<lambda>(vault_name, root). Rglob root) three_vaults = [Rglob [''A''], Rglob [''B''], Rglob [''C'']]"
    by (simp_all add: three_vaults_def three_vaults_fs_def scenario_fs_def)
  from h(1,2,4,5,6) l c(1,2,3,4) w u show ?thesis unfolding e by simp
qed

text \<open>
  C4. If the read of some item's file fails, \<^verbatim>\<open>_do_ingest_paths\<close> raises the error of the
  first failing read; the files before it have been read and nothing else has happened:
  the encoder is not called, \<^verbatim>\<open>store_note\<close> is not called, the database and the queue are
  as they were. For \<^verbatim>\<open>_do_ingest_batch\<close>: when the batch it drains holds such an item, it
  raises, the database is unchanged, and the queue has lost the whole batch (nothing is
  put back); \<^verbatim>\<open>run_ingestor\<close> ends with that exception in its first iteration, so
  there is no retry.
\<close>

theorem C4_read_error_aborts_batch:
  "((\<exists>(v, p) \<in> set items. fs_read fs p = None) \<longrightarrow>
      (case do_ingest_paths fs items ix of
         (r, ix') \<Rightarrow>
           (\<exists>k<length items. fs_read fs (snd (items ! k)) = None
               \<and> (\<forall>j<k. fs_read fs (snd (items ! j)) \<noteq> None)
               \<and> r = Inl (ReadError (snd (items ! k)))
               \<and> ix' = ix\<lparr>trace := trace ix @ map (\<lambda>(v, p). OpenRead p) (take (Suc k) items)\<rparr>)
         \<and> encoder_calls (trace ix') = encoder_calls (trace ix)
         \<and> upserts (trace ix') = upserts (trace ix)
         \<and> database ix' = database ix
         \<and> ingest_queue ix' = ingest_queue ix))
   \<and> ((\<exists>(v, p) \<in> set (take (nat (ingest_batch_size ix)) (ingest_queue ix)). fs_read fs p = None) \<longrightarrow>
      (case do_ingest_batch fs ix of
         (r, ix') \<Rightarrow>
           (\<exists>e. r = Inl e)
         \<and> encoder_calls (trace ix') = encoder_calls (trace ix)
         \<and> upserts (trace ix') = upserts (trace ix)
         \<and> database ix' = database ix
         \<and> ingest_queue ix' = drop (nat (ingest_batch_size ix)) (ingest_queue ix)
         \<and> run_ingestor (Suc fuel) fs [] stop_when_done ix = Some (r, ix')))"
proof (intro conjI impI)
  assume "\<exists>(v, p) \<in> set items. fs_read fs p = None"
  then obtain v p where "(v, p) \<in> set items" "fs_read fs p = None" by auto
  from do_ingest_paths_read_error [OF this, of ix]
  show "case do_ingest_paths fs items ix of
         (r, ix') \<Rightarrow>
           (\<exists>k<length items. fs_read fs (snd (items ! k)) = None
               \<and> (\<forall>j<k. fs_read fs (snd (items ! j)) \<noteq> None)
               \<and> r = Inl (ReadError (snd (items ! k)))
               \<and> ix' = ix\<lparr>trace := trace ix @ map (\<lambda>(v, p). OpenRead p) (take (Suc k) items)\<rparr>)
         \<and> encoder_calls (trace ix') = encoder_calls (trace ix)
         \<and> upserts (trace ix') = upserts (trace ix)
         \<and> database ix' = database ix
         \<and> ingest_queue ix' = ingest_queue ix"
    by auto
next
  let ?n = "nat (ingest_batch_size ix)"
  let ?ix0 = "ix\<lparr>ingest_queue := drop ?n (ingest_queue ix)\<rparr>"
  assume "\<exists>(v, p) \<in> set (take ?n (ingest_queue ix)). fs_read fs p = None"
  then obtain v p where vp: "(v, p) \<in> set (take ?n (ingest_queue ix))" "fs_read fs p = None" by auto
  then have ne: "ingest_queue ix \<noteq> []" by auto
  from do_ingest_paths_read_error [OF vp, of ?ix0] obtain k where
    k: "do_ingest_paths fs (take ?n (ingest_queue ix)) ?ix0 =
          (Inl (ReadError (snd (take ?n (ingest_queue ix) ! k))),
           ?ix0\<lparr>trace := trace ?ix0 @ map (\<lambda>(v, p). OpenRead p) (take (Suc k) (take ?n (ingest_queue ix)))\<rparr>)"
    by blast
  then have b: "do_ingest_batch fs ix =
          (Inl (ReadError (snd (take ?n (ingest_queue ix) ! k))),
           ?ix0\<lparr>trace := trace ?ix0 @ map (\<lambda>(v, p). OpenRead p) (take (Suc k) (take ?n (ingest_queue ix)))\<rparr>)"
    by (simp add: do_ingest_batch_eq)
  show "case do_ingest_batch fs ix of
         (r, ix') \<Rightarrow>
           (\<exists>e. r = Inl e)
         \<and> encoder_calls (trace ix') = encoder_calls (trace ix)
         \<and> upserts (trace ix') = upserts (trace ix)
         \<and> database ix' = database ix
         \<and> ingest_queue ix' = drop (nat (ingest_batch_size ix)) (ingest_queue ix)
         \<and> run_ingestor (Suc fuel) fs [] stop_when_done ix = Some (r, ix')"
    using ne by (simp add: b)
qed

theorem C4_read_error_aborts_batch_witness:
  "(\<exists>(v, p) \<in> set [(''V'', [''V'', ''a.md'']), (''V'', [''V'', ''b.md'']), (''V'', [''V'', ''c.md''])].
       fs_read unreadable_fs p = None)
   \<and> (case do_ingest_paths unreadable_fs
         [(''V'', [''V'', ''a.md'']), (''V'', [''V'', ''b.md'']), (''V'', [''V'', ''c.md''])]
         scenario_indexer of
        (r, ix') \<Rightarrow> r = Inl (ReadError [''V'', ''b.md'']) \<and> database ix' = []
          \<and> upserts (trace ix') = [] \<and> encoder_calls (trace ix') = []
          \<and> reads (trace ix') = [[''V'', ''a.md''], [''V'', ''b.md'']])
   \<and> (\<exists>(v, p) \<in> set (take (nat (ingest_batch_size (scenario_indexer\<lparr>ingest_queue :=
           [(''V'', [''V'', ''a.md'']), (''V'', [''V'', ''b.md'']), (''V'', [''V'', ''c.md''])]\<rparr>)))
         (ingest_queue (scenario_indexer\<lparr>ingest_queue :=
           [(''V'', [''V'', ''a.md'']), (''V'', [''V'', ''b.md'']), (''V'', [''V'', ''c.md''])]\<rparr>))).
       fs_read unreadable_fs p = None)
   \<and> (case do_ingest_batch unreadable_fs (scenario_indexer\<lparr>ingest_queue :=
           [(''V'', [''V'', ''a.md'']), (''V'', [''V'', ''b.md'']), (''V'', [''V'', ''c.md''])]\<rparr>) of
        (r, ix') \<Rightarrow> (\<exists>e. r = Inl e) \<and> database ix' = [] \<and> upserts (trace ix') = []
          \<and> ingest_queue ix' = [(''V'', [''V'', ''c.md''])])"
proof -
  let ?items = "[(''V'', [''V'', ''a.md'']), (''V'', [''V'', ''b.md'']), (''V'', [''V'', ''c.md''])]"
  have h: "\<exists>(v, p) \<in> set ?items. fs_read unreadable_fs p = None"
    by (simp add: unreadable_fs_def)
  have t: "trace scenario_indexer = [Rglob [''V'']]" "database scenario_indexer = []"
    "ingest_batch_size scenario_indexer = 2"
    by (simp_all add: scenario_indexer_def Indexer_def num_notes_def
        enqueue_all_note_paths_for_ingestion_def find_all_note_paths_def scenario_fs_def)
  have run: "do_ingest_paths unreadable_fs ?items scenario_indexer =
       (Inl (ReadError [''V'', ''b.md'']),
        scenario_indexer\<lparr>trace := trace scenario_indexer @ [OpenRead [''V'', ''a.md''], OpenRead [''V'', ''b.md'']]\<rparr>)"
    by (simp add: do_ingest_paths_def unreadable_fs_def scenario_fs_def)
  have h2: "\<exists>(v, p) \<in> set (take (nat (ingest_batch_size (scenario_indexer\<lparr>ingest_queue := ?items\<rparr>)))
         (ingest_queue (scenario_indexer\<lparr>ingest_queue := ?items\<rparr>))). fs_read unreadable_fs p = None"
    by (simp add: t unreadable_fs_def)
  have runb: "do_ingest_batch unreadable_fs (scenario_indexer\<lparr>ingest_queue := ?items\<rparr>) =
       (Inl (ReadError [''V'', ''b.md'']),
        scenario_indexer\<lparr>ingest_queue := [(''V'', [''V'', ''c.md''])],
          trace := trace scenario_indexer @ [OpenRead [''V'', ''a.md''], OpenRead [''V'', ''b.md'']]\<rparr>)"
    by (simp add: do_ingest_batch_def t do_ingest_paths_def unreadable_fs_def scenario_fs_def)
  from h h2
    C4_read_error_aborts_batch
      [where items = ?items and fs = unreadable_fs and ix = scenario_indexer]
    C4_read_error_aborts_batch
      [where fs = unreadable_fs and ix = "scenario_indexer\<lparr>ingest_queue := ?items\<rparr>"]
  show ?thesis by (simp add: run runb t)
qed

text \<open>
  C5. \<^verbatim>\<open>on_deleted\<close> and \<^verbatim>\<open>on_moved\<close>, in indexer.py and in worker.py, change nothing but
  the log: the database, the ingestion queue and the trace of calls are what they
  were, and so is every other field. One warning is logged when the event is not a
  directory event and its path is (still) a file with suffix \<open>.md\<close>; otherwise not even
  that.
\<close>

theorem C5_delete_move_log_only:
  "on_deleted fs vault_name ev ix =
     ix\<lparr>warnings := warnings ix @
       (if \<not> is_directory ev \<and> fs_is_file fs (src_path ev) \<and> suffix (src_path ev) = ''.md''
        then [Deleted_file (src_path ev)] else [])\<rparr>
   \<and> on_moved fs vault_name ev ix =
     ix\<lparr>warnings := warnings ix @
       (if \<not> is_directory ev \<and> fs_is_file fs (src_path ev) \<and> suffix (src_path ev) = ''.md''
        then [Moved_file (src_path ev)] else [])\<rparr>
   \<and> database (on_deleted fs vault_name ev ix) = database ix
   \<and> ingest_queue (on_deleted fs vault_name ev ix) = ingest_queue ix
   \<and> trace (on_deleted fs vault_name ev ix) = trace ix
   \<and> database (on_moved fs vault_name ev ix) = database ix
   \<and> ingest_queue (on_moved fs vault_name ev ix) = ingest_queue ix
   \<and> trace (on_moved fs vault_name ev ix) = trace ix
   \<and> w_on_deleted fs vault_name ev w =
     w\<lparr>w_indexer := (w_indexer w)\<lparr>warnings := warnings (w_indexer w) @
       (if \<not> is_directory ev \<and> fs_is_file fs (src_path ev) \<and> suffix (src_path ev) = ''.md''
        then [Deleted_file (src_path ev)] else [])\<rparr>\<rparr>
   \<and> w_on_moved fs vault_name ev w =
     w\<lparr>w_indexer := (w_indexer w)\<lparr>warnings := warnings (w_indexer w) @
       (if \<not> is_directory ev \<and> fs_is_file fs (src_path ev) \<and> suffix (src_path ev) = ''.md''
        then [Moved_file (src_path ev)] else [])\<rparr>\<rparr>
   \<and> database (w_indexer (w_on_deleted fs vault_name ev w)) = database (w_indexer w)
   \<and> w_ingest_queue (w_on_deleted fs vault_name ev w) = w_ingest_queue w
   \<and> trace (w_indexer (w_on_deleted fs vault_name ev w)) = trace (w_indexer w)
   \<and> database (w_indexer (w_on_moved fs vault_name ev w)) = database (w_indexer w)
   \<and> w_ingest_queue (w_on_moved fs vault_name ev w) = w_ingest_queue w
   \<and> trace (w_indexer (w_on_moved fs vault_name ev w)) = trace (w_indexer w)"
  by (simp add: on_deleted_def on_moved_def w_on_deleted_def w_on_moved_def Let_def)

theorem C5_delete_move_log_only_witness:
  "on_deleted deleted_fs ''V'' \<lparr>is_directory = False, src_path = [''V'', ''a.md'']\<rparr> indexed_indexer
     = indexed_indexer
   \<and> database (on_deleted deleted_fs ''V'' \<lparr>is_directory = False, src_path = [''V'', ''a.md'']\<rparr>
        indexed_indexer) = [((''V'', [''a.md'']), 7, [5])]
   \<and> on_moved scenario_fs ''V'' \<lparr>is_directory = False, src_path = [''V'', ''a.md'']\<rparr> indexed_indexer
     = indexed_indexer\<lparr>warnings := [Moved_file [''V'', ''a.md'']]\<rparr>
   \<and> database (on_moved scenario_fs ''V'' \<lparr>is_directory = False, src_path = [''V'', ''a.md'']\<rparr>
        indexed_indexer) = [((''V'', [''a.md'']), 7, [5])]"
  using
    C5_delete_move_log_only [where fs = deleted_fs and vault_name = "''V''" and ix = indexed_indexer
      and ev = "\<lparr>is_directory = False, src_path = [''V'', ''a.md'']\<rparr>"]
    C5_delete_move_log_only [where fs = scenario_fs and vault_name = "''V''" and ix = indexed_indexer
      and ev = "\<lparr>is_directory = False, src_path = [''V'', ''a.md'']\<rparr>"]
  by (simp add: deleted_fs_def scenario_fs_def indexed_indexer_def scenario_indexer_fields
      suffix_def name_def)

text \<open>
  C6, as stated, fails: the handlers test the suffix of the event's path and enqueue the
  resolved path. For the symbolic link \<open>/V/link.md\<close> to the file \<open>/V/target.txt\<close>,
  \<^verbatim>\<open>on_created\<close> enqueues \<open>/V/target.txt\<close>, whose suffix is not \<open>.md\<close>.
\<close>

theorem C6_counterexample:
  "ingest_queue (on_created symlink_fs ''V''
      \<lparr>is_directory = False, src_path = [''V'', ''link.md'']\<rparr> scenario_indexer)
     = [(''V'', [''V'', ''target.txt''])]
   \<and> suffix [''V'', ''target.txt''] = ''.txt''
   \<and> suffix [''V'', ''target.txt''] \<noteq> ''.md''"
  by (simp add: on_created_def symlink_fs_def scenario_fs_def enqueue_path_for_ingestion_def
      scenario_indexer_fields suffix_def name_def)

text \<open>
  C6, amended. \<^verbatim>\<open>enqueue_path_for_ingestion\<close> appends an item only when its path is a
  file at that moment, so every item of the queue was an existing regular file when
  it was enqueued; this covers the scan at startup. \<^verbatim>\<open>on_created\<close> and \<^verbatim>\<open>on_modified\<close>
  enqueue exactly when the event is not a directory event, its path is a file with
  suffix \<open>.md\<close> (a name that ends in \<open>.md\<close> after at least one other character) and the
  resolved path is a file; what they enqueue is the resolved path under the watcher's
  vault, and it has the suffix \<open>.md\<close> whenever resolving keeps the name of the file. In
  every other case the queue is unchanged.
\<close>

theorem C6_enqueue_filter:
  "ingest_queue (enqueue_path_for_ingestion fs vault_name p ix) =
     ingest_queue ix @ (if fs_is_file fs p then [(vault_name, p)] else [])
   \<and> (\<forall>(v, q) \<in> set (ingest_queue (Indexer fs db vs enc watch ibs mbs)). fs_is_file fs q)
   \<and> ingest_queue (on_created fs vault_name ev ix) =
     ingest_queue ix @
       (if \<not> is_directory ev \<and> fs_is_file fs (src_path ev) \<and> suffix (src_path ev) = ''.md''
           \<and> fs_is_file fs (fs_resolve fs (src_path ev))
        then [(vault_name, fs_resolve fs (src_path ev))] else [])
   \<and> ingest_queue (on_modified fs vault_name ev ix) =
     ingest_queue ix @
       (if \<not> is_directory ev \<and> fs_is_file fs (src_path ev) \<and> suffix (src_path ev) = ''.md''
           \<and> fs_is_file fs (fs_resolve fs (src_path ev))
        then [(vault_name, fs_resolve fs (src_path ev))] else [])
   \<and> (suffix (src_path ev) = ''.md'' \<longrightarrow>
        (\<exists>stem. stem \<noteq> [] \<and> name (src_path ev) = stem @ ''.md'')
      \<and> (name (fs_resolve fs (src_path ev)) = name (src_path ev) \<longrightarrow>
           suffix (fs_resolve fs (src_path ev)) = ''.md''))
   \<and> database (on_created fs vault_name ev ix) = database ix
   \<and> database (on_modified fs vault_name ev ix) = database ix"
proof -
  have "\<forall>(v, q) \<in> set (ingest_queue (Indexer fs db vs enc watch ibs mbs)). fs_is_file fs q"
    by (auto simp: Indexer_fields)
  moreover have "suffix (src_path ev) = ''.md'' \<longrightarrow>
        (\<exists>stem. stem \<noteq> [] \<and> name (src_path ev) = stem @ ''.md'')
      \<and> (name (fs_resolve fs (src_path ev)) = name (src_path ev) \<longrightarrow>
           suffix (fs_resolve fs (src_path ev)) = ''.md'')"
    using suffix_md_name [of "src_path ev"] suffix_name [of "fs_resolve fs (src_path ev)" "src_path ev"]
    by auto
  ultimately show ?thesis
    by (simp add: on_created_def on_modified_def enqueue_path_for_ingestion_def Let_def)
qed

theorem C6_enqueue_filter_witness:
  "suffix [''V'', ''sub'', ''a.md''] = ''.md''
   \<and> name (fs_resolve scenario_fs [''V'', ''sub'', ''a.md'']) = name [''V'', ''sub'', ''a.md'']
   \<and> ingest_queue (on_created scenario_fs ''V''
        \<lparr>is_directory = False, src_path = [''V'', ''sub'', ''a.md'']\<rparr> scenario_indexer)
       = [(''V'', [''V'', ''sub'', ''a.md''])]
   \<and> ingest_queue (on_modified scenario_fs ''V''
        \<lparr>is_directory = True, src_path = [''V'', ''sub.md'']\<rparr> scenario_indexer) = []
   \<and> ingest_queue (on_modified scenario_fs ''V''
        \<lparr>is_directory = False, src_path = [''V'', ''notes.txt'']\<rparr> scenario_indexer) = []
   \<and> list_all (\<lambda>(v, q). fs_is_file three_vaults_fs q)
        (ingest_queue (Indexer three_vaults_fs [] three_vaults scenario_encoder False 7 16))"
  using
    C6_enqueue_filter [where fs = scenario_fs and vault_name = "''V''" and ix = scenario_indexer
      and ev = "\<lparr>is_directory = False, src_path = [''V'', ''sub'', ''a.md'']\<rparr>"]
    C6_enqueue_filter [where fs = scenario_fs and vault_name = "''V''" and ix = scenario_indexer
      and ev = "\<lparr>is_directory = True, src_path = [''V'', ''sub.md'']\<rparr>"]
    C6_enqueue_filter [where fs = scenario_fs and vault_name = "''V''" and ix = scenario_indexer
      and ev = "\<lparr>is_directory = False, src_path = [''V'', ''notes.txt'']\<rparr>"]
    C6_enqueue_filter [where fs = three_vaults_fs and db = "[]" and vs = three_vaults
      and enc = scenario_encoder and watch = False and ibs = 7 and mbs = 16]
  by (simp add: scenario_fs_def scenario_indexer_fields suffix_def name_def list_all_iff)

text \<open>
  C7. Every run of \<^verbatim>\<open>_do_ingest_paths\<close> is one of three: a read fails, and the calls made
  are reads only; or all files are read and the encoder fails, and the calls made are
  the reads and then the encoder call; or the encoder returns \<open>embs\<close>, and the calls made
  are the reads of all items, then the one encoder call, then, for the first items in
  order, the stat of the item's file followed by its \<^verbatim>\<open>store_note\<close> (and possibly one last
  stat that failed). In each \<^verbatim>\<open>store_note\<close> the vault is the item's, the path is the
  item's path relative to the root of that vault, the time is what the stat just before
  it returned, and the embedding is the one at the item's position. So every stat and
  every upsert comes after the encoder call, which comes after every read. The run
  succeeds exactly when this covers all items, and then the database is the old one
  with these records upserted in order.
\<close>

theorem C7_stat_after_read:
  "do_ingest_paths fs items ix = (r, ix') \<longrightarrow>
     (\<exists>k<length items. fs_read fs (snd (items ! k)) = None \<and> r = Inl (ReadError (snd (items ! k)))
         \<and> (\<forall>j<k. fs_read fs (snd (items ! j)) \<noteq> None)
         \<and> trace ix' = trace ix @ map (\<lambda>(v, p). OpenRead p) (take (Suc k) items)
         \<and> database ix' = database ix)
   \<or> (\<exists>texts e. map (\<lambda>(v, p). fs_read fs p) items = map Some texts
         \<and> encoder ix texts (model_batch_size ix) = Inl e \<and> r = Inl e
         \<and> trace ix' = trace ix @ map (\<lambda>(v, p). OpenRead p) items
              @ [EncodeDocuments texts (model_batch_size ix)]
         \<and> database ix' = database ix)
   \<or> (\<exists>texts embs recs tail.
           map (\<lambda>(v, p). fs_read fs p) items = map Some texts
         \<and> encoder ix texts (model_batch_size ix) = Inr embs
         \<and> length recs \<le> length items \<and> length recs \<le> length embs
         \<and> list_all2 (\<lambda>(v, p) (rel, m). \<exists>root. map_of (vaults ix) v = Some root
               \<and> relative_to p root = Inr rel \<and> fs_mtime fs p = Some m)
             (take (length recs) items) recs
         \<and> trace ix' = trace ix @ map (\<lambda>(v, p). OpenRead p) items
              @ [EncodeDocuments texts (model_batch_size ix)]
              @ concat (map (\<lambda>((v, p), (rel, m), emb). [StatFile p, StoreNote rel v m emb])
                          (zip items (zip recs embs))) @ tail
         \<and> (tail = [] \<or> (\<exists>q. tail = [StatFile q]))
         \<and> database ix' = fold (\<lambda>((v, p), (rel, m), emb). upsert (v, rel) (m, emb))
                             (zip items (zip recs embs)) (database ix)
         \<and> (r = Inr () \<longleftrightarrow> length recs = length items \<and> length embs = length items \<and> tail = []))"
proof
  assume "do_ingest_paths fs items ix = (r, ix')"
  then show "(\<exists>k<length items. fs_read fs (snd (items ! k)) = None \<and> r = Inl (ReadError (snd (items ! k)))
         \<and> (\<forall>j<k. fs_read fs (snd (items ! j)) \<noteq> None)
         \<and> trace ix' = trace ix @ map (\<lambda>(v, p). OpenRead p) (take (Suc k) items)
         \<and> database ix' = database ix)
   \<or> (\<exists>texts e. map (\<lambda>(v, p). fs_read fs p) items = map Some texts
         \<and> encoder ix texts (model_batch_size ix) = Inl e \<and> r = Inl e
         \<and> trace ix' = trace ix @ map (\<lambda>(v, p). OpenRead p) items
              @ [EncodeDocuments texts (model_batch_size ix)]
         \<and> database ix' = database ix)
   \<or> (\<exists>texts embs recs tail.
           map (\<lambda>(v, p). fs_read fs p) items = map Some texts
         \<and> encoder ix texts (model_batch_size ix) = Inr embs
         \<and> length recs \<le> length items \<and> length recs \<le> length embs
         \<and> list_all2 (\<lambda>(v, p) (rel, m). \<exists>root. map_of (vaults ix) v = Some root
               \<and> relative_to p root = Inr rel \<and> fs_mtime fs p = Some m)
             (take (length recs) items) recs
         \<and> trace ix' = trace ix @ map (\<lambda>(v, p). OpenRead p) items
              @ [EncodeDocuments texts (model_batch_size ix)]
              @ concat (map (\<lambda>((v, p), (rel, m), emb). [StatFile p, StoreNote rel v m emb])
                          (zip items (zip recs embs))) @ tail
         \<and> (tail = [] \<or> (\<exists>q. tail = [StatFile q]))
         \<and> database ix' = fold (\<lambda>((v, p), (rel, m), emb). upsert (v, rel) (m, emb))
                             (zip items (zip recs embs)) (database ix)
         \<and> (r = Inr () \<longleftrightarrow> length recs = length items \<and> length embs = length items \<and> tail = []))"
  proof (cases rule: do_ingest_paths_cases)
    case (read_error k)
    then have "\<exists>k<length items. fs_read fs (snd (items ! k)) = None \<and> r = Inl (ReadError (snd (items ! k)))
         \<and> (\<forall>j<k. fs_read fs (snd (items ! j)) \<noteq> None)
         \<and> trace ix' = trace ix @ map (\<lambda>(v, p). OpenRead p) (take (Suc k) items)
         \<and> database ix' = database ix"
      by (intro exI [of _ k]) simp
    then show ?thesis by blast
  next
    case (encoder_error texts e)
    then have "\<exists>texts e. map (\<lambda>(v, p). fs_read fs p) items = map Some texts
         \<and> encoder ix texts (model_batch_size ix) = Inl e \<and> r = Inl e
         \<and> trace ix' = trace ix @ map (\<lambda>(v, p). OpenRead p) items
              @ [EncodeDocuments texts (model_batch_size ix)]
         \<and> database ix' = database ix"
      by (intro exI [of _ texts] exI [of _ e]) simp
    then show ?thesis by blast
  next
    case (stored texts embs recs tail)
    then show ?thesis by blast
  qed
qed


theorem C7_stat_after_read_witness:
  "fst (do_ingest_paths scenario_fs [(''V'', [''V'', ''a.md'']), (''V'', [''V'', ''sub'', ''b.md''])]
          scenario_indexer) = Inr ()
   \<and> trace (snd (do_ingest_paths scenario_fs
               [(''V'', [''V'', ''a.md'']), (''V'', [''V'', ''sub'', ''b.md''])] scenario_indexer))
       = [Rglob [''V''], OpenRead [''V'', ''a.md''], OpenRead [''V'', ''sub'', ''b.md''],
          EncodeDocuments [''Va.md'', ''Vsubb.md''] 16,
          StatFile [''V'', ''a.md''], StoreNote [''a.md''] ''V'' 7 [5],
          StatFile [''V'', ''sub'', ''b.md''], StoreNote [''sub'', ''b.md''] ''V'' 7 [8]]
   \<and> database (snd (do_ingest_paths scenario_fs
               [(''V'', [''V'', ''a.md'']), (''V'', [''V'', ''sub'', ''b.md''])] scenario_indexer))
       = [((''V'', [''a.md'']), 7, [5]), ((''V'', [''sub'', ''b.md'']), 7, [8])]"
proof -
  let ?items = "[(''V'', [''V'', ''a.md'']), (''V'', [''V'', ''sub'', ''b.md''])]"
  have run: "do_ingest_paths scenario_fs ?items scenario_indexer =
     (Inr (), scenario_indexer\<lparr>
        database := [((''V'', [''a.md'']), 7, [5]), ((''V'', [''sub'', ''b.md'']), 7, [8])],
        trace := [Rglob [''V''], OpenRead [''V'', ''a.md''], OpenRead [''V'', ''sub'', ''b.md''],
          EncodeDocuments [''Va.md'', ''Vsubb.md''] 16,
          StatFile [''V'', ''a.md''], StoreNote [''a.md''] ''V'' 7 [5],
          StatFile [''V'', ''sub'', ''b.md''], StoreNote [''sub'', ''b.md''] ''V'' 7 [8]]\<rparr>)"
    by (simp add: do_ingest_paths_def scenario_indexer_fields scenario_fs_def scenario_encoder_def
        relative_to_def store_note_def)
  from run C7_stat_after_read [where fs = scenario_fs and items = ?items and ix = scenario_indexer
      and r = "Inr ()" and ix' = "snd (do_ingest_paths scenario_fs ?items scenario_indexer)"]
  show ?thesis by simp
qed




text \<open>
  C9, as stated, fails: a valid request fails too, when a path the search returns
  cannot be read (the spec itself notes that a search may return a path that has been
  deleted since). Here the tool name is right, the arguments are there and the query is
  \<open>x\<close>; the search returns \<open>/V/a.md\<close> and the unreadable \<open>/V/b.md\<close>; the request ends
  with the error of that read, after the search and two reads.
\<close>

theorem C9_counterexample:
  "map_of [(''query'', ''x'')] ''query'' = Some ''x''
   \<and> handle_call_tool unreadable_fs (\<lambda>query. [[''V'', ''a.md''], [''V'', ''b.md'']]) (\<lambda>u. u)
        ''search-notes'' (Some [(''query'', ''x'')]) []
     = (Inl (ReadError [''V'', ''b.md'']),
        [Search ''x'', OpenRead [''V'', ''a.md''], OpenRead [''V'', ''b.md'']])"
  by (simp add: handle_call_tool_def unreadable_fs_def scenario_fs_def)

text \<open>
  C9, amended. \<^verbatim>\<open>handle_call_tool\<close> fails a request before it has made any call exactly
  when the tool name is not \<open>search-notes\<close>, or the arguments are missing or empty, or the
  query is missing or empty; the error is then the one of its own \<^verbatim>\<open>raise\<close> statements
  for that case ("Unknown tool", "Missing arguments", "Missing query"). For any other
  request it calls the search once and then reads the returned paths in order: when
  every read succeeds it returns one embedded resource per path, in the order of the
  search, each with the text of its file; when a read fails the request fails with the
  error of the first read that fails (an \<^verbatim>\<open>OSError\<close>, or a \<^verbatim>\<open>UnicodeDecodeError\<close>, which is
  a \<^verbatim>\<open>ValueError\<close> as well). In every case the calls it makes are the search and reads
  only: no upsert and no encoder call, and it has no access to an ingestion queue.
\<close>

theorem C9_call_tool:
  "((\<exists>e. handle_call_tool fs search file_url tool_name arguments tr = (Inl e, tr))
     \<longleftrightarrow>
     (tool_name \<noteq> ''search-notes'' \<or> arguments = None \<or> arguments = Some []
      \<or> (\<exists>args. arguments = Some args
            \<and> (map_of args ''query'' = None \<or> map_of args ''query'' = Some []))))
   \<and> (tool_name \<noteq> ''search-notes'' \<longrightarrow>
        handle_call_tool fs search file_url tool_name arguments tr
          = (Inl (ValueError_unknown_tool tool_name), tr))
   \<and> (tool_name = ''search-notes'' \<and> (arguments = None \<or> arguments = Some []) \<longrightarrow>
        handle_call_tool fs search file_url tool_name arguments tr
          = (Inl ValueError_missing_arguments, tr))
   \<and> (tool_name = ''search-notes'' \<and> arguments = Some args \<and> args \<noteq> []
        \<and> (map_of args ''query'' = None \<or> map_of args ''query'' = Some []) \<longrightarrow>
        handle_call_tool fs search file_url tool_name arguments tr
          = (Inl ValueError_missing_query, tr))
   \<and> (tool_name = ''search-notes'' \<and> arguments = Some args \<and> map_of args ''query'' = Some query
        \<and> query \<noteq> [] \<longrightarrow>
        searches (snd (handle_call_tool fs search file_url tool_name arguments tr))
          = searches tr @ [query]
      \<and> (map (fs_read fs) (search query) = map Some texts \<longrightarrow>
           handle_call_tool fs search file_url tool_name arguments tr =
             (Inr (map (\<lambda>(p, t). resource_of file_url p t) (zip (search query) texts)),
              tr @ Search query # map OpenRead (search query)))
      \<and> ((\<exists>p \<in> set (search query). fs_read fs p = None) \<longrightarrow>
           (\<exists>k < length (search query). fs_read fs (search query ! k) = None
              \<and> (\<forall>j<k. fs_read fs (search query ! j) \<noteq> None)
              \<and> handle_call_tool fs search file_url tool_name arguments tr
                  = (Inl (ReadError (search query ! k)),
                     tr @ Search query # map OpenRead (take (Suc k) (search query))))))
   \<and> upserts (snd (handle_call_tool fs search file_url tool_name arguments tr)) = upserts tr
   \<and> encoder_calls (snd (handle_call_tool fs search file_url tool_name arguments tr))
       = encoder_calls tr"
proof -
  have iff: "(\<exists>e. handle_call_tool fs search file_url tool_name arguments tr = (Inl e, tr))
     \<longleftrightarrow>
     (tool_name \<noteq> ''search-notes'' \<or> arguments = None \<or> arguments = Some []
      \<or> (\<exists>args. arguments = Some args
            \<and> (map_of args ''query'' = None \<or> map_of args ''query'' = Some [])))"
  proof (cases "tool_name = ''search-notes'' \<and> (\<exists>args query. arguments = Some args \<and> args \<noteq> []
      \<and> map_of args ''query'' = Some query \<and> query \<noteq> [])")
    case True
    then obtain args query where a: "tool_name = ''search-notes''" "arguments = Some args"
      "map_of args ''query'' = Some query" "query \<noteq> []" by blast
    then have h: "handle_call_tool fs search file_url tool_name arguments tr =
        embed_resources fs file_url (search query) (tr @ [Search query])"
      using handle_call_tool_valid [of args query fs search file_url tr] by simp
    from embed_resources_calls [of fs file_url "search query" tr query] h
    have "\<not> (\<exists>e. handle_call_tool fs search file_url tool_name arguments tr = (Inl e, tr))"
      by auto
    with a show ?thesis by auto
  next
    case False
    then show ?thesis
      by (cases arguments) (auto simp: handle_call_tool_def split: option.splits)
  qed
  have c1: "tool_name \<noteq> ''search-notes'' \<longrightarrow>
        handle_call_tool fs search file_url tool_name arguments tr
          = (Inl (ValueError_unknown_tool tool_name), tr)"
    by (simp add: handle_call_tool_def)
  have c2: "tool_name = ''search-notes'' \<and> (arguments = None \<or> arguments = Some []) \<longrightarrow>
        handle_call_tool fs search file_url tool_name arguments tr
          = (Inl ValueError_missing_arguments, tr)"
    by (auto simp: handle_call_tool_def)
  have c3: "tool_name = ''search-notes'' \<and> arguments = Some args \<and> args \<noteq> []
        \<and> (map_of args ''query'' = None \<or> map_of args ''query'' = Some []) \<longrightarrow>
        handle_call_tool fs search file_url tool_name arguments tr
          = (Inl ValueError_missing_query, tr)"
    by (auto simp: handle_call_tool_def)
  have c4: "tool_name = ''search-notes'' \<and> arguments = Some args \<and> map_of args ''query'' = Some query
        \<and> query \<noteq> [] \<longrightarrow>
        searches (snd (handle_call_tool fs search file_url tool_name arguments tr))
          = searches tr @ [query]
      \<and> (map (fs_read fs) (search query) = map Some texts \<longrightarrow>
           handle_call_tool fs search file_url tool_name arguments tr =
             (Inr (map (\<lambda>(p, t). resource_of file_url p t) (zip (search query) texts)),
              tr @ Search query # map OpenRead (search query)))
      \<and> ((\<exists>p \<in> set (search query). fs_read fs p = None) \<longrightarrow>
           (\<exists>k < length (search query). fs_read fs (search query ! k) = None
              \<and> (\<forall>j<k. fs_read fs (search query ! j) \<noteq> None)
              \<and> handle_call_tool fs search file_url tool_name arguments tr
                  = (Inl (ReadError (search query ! k)),
                     tr @ Search query # map OpenRead (take (Suc k) (search query)))))"
  proof (intro impI conjI)
    assume a: "tool_name = ''search-notes'' \<and> arguments = Some args
        \<and> map_of args ''query'' = Some query \<and> query \<noteq> []"
    then have h: "handle_call_tool fs search file_url tool_name arguments tr =
        embed_resources fs file_url (search query) (tr @ [Search query])"
      using handle_call_tool_valid [of args query fs search file_url tr] by simp
    obtain r tr' where x: "embed_resources fs file_url (search query) (tr @ [Search query]) = (r, tr')"
      by (cases "embed_resources fs file_url (search query) (tr @ [Search query])")
    from embed_resources_trace [OF x] obtain k where
      "tr' = (tr @ [Search query]) @ map OpenRead (take k (search query))" by blast
    with h x show "searches (snd (handle_call_tool fs search file_url tool_name arguments tr))
          = searches tr @ [query]"
      by simp
    {
      assume "map (fs_read fs) (search query) = map Some texts"
      from embed_resources_readable [OF this, of file_url "tr @ [Search query]"] h
      show "handle_call_tool fs search file_url tool_name arguments tr =
             (Inr (map (\<lambda>(p, t). resource_of file_url p t) (zip (search query) texts)),
              tr @ Search query # map OpenRead (search query))"
        by simp
    }
    {
      assume "\<exists>p \<in> set (search query). fs_read fs p = None"
      then obtain p where "p \<in> set (search query)" "fs_read fs p = None" by blast
      from embed_resources_first [OF this, of file_url "tr @ [Search query]"] h
      show "\<exists>k < length (search query). fs_read fs (search query ! k) = None
              \<and> (\<forall>j<k. fs_read fs (search query ! j) \<noteq> None)
              \<and> handle_call_tool fs search file_url tool_name arguments tr
                  = (Inl (ReadError (search query ! k)),
                     tr @ Search query # map OpenRead (take (Suc k) (search query)))"
        by simp
    }
  qed
  from iff c1 c2 c3 c4 handle_call_tool_frame [of fs search file_url tool_name arguments tr]
  show ?thesis by (intro conjI) blast+
qed

theorem C9_call_tool_witness:
  "''list-notes'' \<noteq> ''search-notes''
   \<and> handle_call_tool scenario_fs (\<lambda>query. [[''V'', ''b.md''], [''V'', ''a.md'']]) (\<lambda>u. u)
        ''list-notes'' (Some [(''query'', ''x'')]) [] = (Inl (ValueError_unknown_tool ''list-notes''), [])
   \<and> handle_call_tool scenario_fs (\<lambda>query. [[''V'', ''b.md''], [''V'', ''a.md'']]) (\<lambda>u. u)
        ''search-notes'' None [] = (Inl ValueError_missing_arguments, [])
   \<and> map_of [(''top_k'', ''3'')] ''query'' = None
   \<and> handle_call_tool scenario_fs (\<lambda>query. [[''V'', ''b.md''], [''V'', ''a.md'']]) (\<lambda>u. u)
        ''search-notes'' (Some [(''top_k'', ''3'')]) [] = (Inl ValueError_missing_query, [])
   \<and> map_of [(''query'', ''x'')] ''query'' = Some ''x''
   \<and> map (fs_read scenario_fs) [[''V'', ''b.md''], [''V'', ''a.md'']] = map Some [''Vb.md'', ''Va.md'']
   \<and> handle_call_tool scenario_fs (\<lambda>query. [[''V'', ''b.md''], [''V'', ''a.md'']]) (\<lambda>u. u)
        ''search-notes'' (Some [(''query'', ''x'')]) []
       = (Inr [\<lparr>uri = ''file:///V/b.md'', mimeType = ''text/markdown'', text_of = ''Vb.md''\<rparr>,
               \<lparr>uri = ''file:///V/a.md'', mimeType = ''text/markdown'', text_of = ''Va.md''\<rparr>],
          [Search ''x'', OpenRead [''V'', ''b.md''], OpenRead [''V'', ''a.md'']])
   \<and> (\<exists>p \<in> set [[''V'', ''b.md''], [''V'', ''a.md'']]. fs_read unreadable_fs p = None)
   \<and> handle_call_tool unreadable_fs (\<lambda>query. [[''V'', ''b.md''], [''V'', ''a.md'']]) (\<lambda>u. u)
        ''search-notes'' (Some [(''query'', ''x'')]) []
       = (Inl (ReadError [''V'', ''b.md'']), [Search ''x'', OpenRead [''V'', ''b.md'']])"
proof -
  let ?search = "\<lambda>query::string. [[''V'', ''b.md''], [''V'', ''a.md'']]"
  let ?url = "\<lambda>u::string. u"
  have h: "''list-notes'' \<noteq> ''search-notes''" "map_of [(''top_k'', ''3'')] ''query'' = None"
    "map_of [(''query'', ''x'')] ''query'' = Some ''x''"
    "map (fs_read scenario_fs) (?search ''x'') = map Some [''Vb.md'', ''Va.md'']"
    "\<exists>p \<in> set (?search ''x''). fs_read unreadable_fs p = None"
    by (simp_all add: scenario_fs_def unreadable_fs_def)
  from h
    C9_call_tool [where fs = scenario_fs and search = ?search and file_url = ?url
      and tool_name = "''list-notes''" and arguments = "Some [(''query'', ''x'')]" and tr = "[]"]
    C9_call_tool [where fs = scenario_fs and search = ?search and file_url = ?url
      and tool_name = "''search-notes''" and arguments = None and tr = "[]"]
    C9_call_tool [where fs = scenario_fs and search = ?search and file_url = ?url
      and tool_name = "''search-notes''" and arguments = "Some [(''top_k'', ''3'')]"
      and args = "[(''top_k'', ''3'')]" and tr = "[]"]
    C9_call_tool [where fs = scenario_fs and search = ?search and file_url = ?url
      and tool_name = "''search-notes''" and arguments = "Some [(''query'', ''x'')]"
      and args = "[(''query'', ''x'')]" and query = "''x''" and texts = "[''Vb.md'', ''Va.md'']"
      and tr = "[]"]
    C9_call_tool [where fs = unreadable_fs and search = ?search and file_url = ?url
      and tool_name = "''search-notes''" and arguments = "Some [(''query'', ''x'')]"
      and args = "[(''query'', ''x'')]" and query = "''x''" and tr = "[]"]
  show ?thesis
    by (simp add: handle_call_tool_def scenario_fs_def unreadable_fs_def str_path_def resource_of_def)
qed

text \<open>
  C10. When every file of the batch is read and the encoder returns \<open>embs\<close> whose length
  is not the number of items, \<^verbatim>\<open>_do_ingest_paths\<close> raises. What it has upserted before
  that: for some number of the first items, at most the shorter of the two lengths,
  the item at each position with the embedding at the same position, under the item's
  own key and stat time. When the stat and the vault of each of these first items are
  there, they are all upserted, one call each, and the error raised is the ValueError of
  \<^verbatim>\<open>zip(..., strict=True)\<close>.
\<close>

theorem C10_length_mismatch_raises:
  "map (\<lambda>(v, p). fs_read fs p) items = map Some texts
   \<and> encoder ix texts (model_batch_size ix) = Inr embs
   \<and> length embs \<noteq> length items \<longrightarrow>
     (case do_ingest_paths fs items ix of
        (r, ix') \<Rightarrow>
          (\<exists>e. r = Inl e)
        \<and> (\<exists>recs. length recs \<le> min (length items) (length embs)
              \<and> list_all2 (\<lambda>(v, p) (rel, m). \<exists>root. map_of (vaults ix) v = Some root
                    \<and> relative_to p root = Inr rel \<and> fs_mtime fs p = Some m)
                  (take (length recs) items) recs
              \<and> upserts (trace ix') = upserts (trace ix)
                   @ map (\<lambda>((v, p), (rel, m), emb). (v, rel, m, emb)) (zip items (zip recs embs)))
        \<and> ((\<forall>(v, p) \<in> set (take (length embs) items). \<exists>root rel m.
                map_of (vaults ix) v = Some root \<and> relative_to p root = Inr rel
                \<and> fs_mtime fs p = Some m) \<longrightarrow>
              r = Inl (if length embs < length items then ValueError_zip_shorter
                       else ValueError_zip_longer)
            \<and> length (upserts (trace ix')) =
                length (upserts (trace ix)) + min (length items) (length embs)))"
proof (intro impI, elim conjE)
  assume t: "map (\<lambda>(v, p). fs_read fs p) items = map Some texts"
    and enc: "encoder ix texts (model_batch_size ix) = Inr embs"
    and len: "length embs \<noteq> length items"
  obtain r ix' where run: "do_ingest_paths fs items ix = (r, ix')"
    by (cases "do_ingest_paths fs items ix")
  from t have lt: "load_texts fs items [] ix =
      (Inr texts, ix\<lparr>trace := trace ix @ map (\<lambda>(v, p). OpenRead p) items\<rparr>)"
    using load_texts_readable [of fs items texts "[]" ix] by simp
  let ?ix2 = "ix\<lparr>trace := trace ix @ map (\<lambda>(v, p). OpenRead p) items
                      @ [EncodeDocuments texts (model_batch_size ix)]\<rparr>"
  from run lt enc have st: "store_embeddings fs items embs ?ix2 = (r, ix')"
    by (simp add: do_ingest_paths_def Let_def)
  from store_embeddings_trace [OF st] obtain recs tail where s:
    "length recs \<le> length items" "length recs \<le> length embs"
    "list_all2 (\<lambda>(v, p) (rel, m). \<exists>root. map_of (vaults ix) v = Some root
        \<and> relative_to p root = Inr rel \<and> fs_mtime fs p = Some m) (take (length recs) items) recs"
    "trace ix' = trace ?ix2
       @ concat (map (\<lambda>((v, p), (rel, m), emb). [StatFile p, StoreNote rel v m emb])
                   (zip items (zip recs embs))) @ tail"
    "tail = [] \<or> (\<exists>q. tail = [StatFile q])"
    "r = Inr () \<longleftrightarrow> length recs = length items \<and> length embs = length items \<and> tail = []"
    by auto
  from s(6) len have "r \<noteq> Inr ()" by simp
  then have err: "\<exists>e. r = Inl e" by (cases r) auto
  from s(5) have "upserts tail = []" by auto
  with s(4) have ups: "upserts (trace ix') = upserts (trace ix)
      @ map (\<lambda>((v, p), (rel, m), emb). (v, rel, m, emb)) (zip items (zip recs embs))"
    by simp
  have part2: "\<exists>recs. length recs \<le> min (length items) (length embs)
      \<and> list_all2 (\<lambda>(v, p) (rel, m). \<exists>root. map_of (vaults ix) v = Some root
            \<and> relative_to p root = Inr rel \<and> fs_mtime fs p = Some m)
          (take (length recs) items) recs
      \<and> upserts (trace ix') = upserts (trace ix)
           @ map (\<lambda>((v, p), (rel, m), emb). (v, rel, m, emb)) (zip items (zip recs embs))"
    using s(1,2,3) ups by (intro exI [of _ recs]) simp
  have part3: "(\<forall>(v, p) \<in> set (take (length embs) items). \<exists>root rel m.
        map_of (vaults ix) v = Some root \<and> relative_to p root = Inr rel \<and> fs_mtime fs p = Some m) \<longrightarrow>
      r = Inl (if length embs < length items then ValueError_zip_shorter else ValueError_zip_longer)
    \<and> length (upserts (trace ix')) = length (upserts (trace ix)) + min (length items) (length embs)"
  proof
    assume "\<forall>(v, p) \<in> set (take (length embs) items). \<exists>root rel m.
        map_of (vaults ix) v = Some root \<and> relative_to p root = Inr rel \<and> fs_mtime fs p = Some m"
    then have "\<forall>(v, p) \<in> set (take (length embs) items). \<exists>root rel m.
        map_of (vaults ?ix2) v = Some root \<and> relative_to p root = Inr rel \<and> fs_mtime fs p = Some m"
      by simp
    from store_embeddings_ok [OF this st] len
    show "r = Inl (if length embs < length items then ValueError_zip_shorter else ValueError_zip_longer)
      \<and> length (upserts (trace ix')) = length (upserts (trace ix)) + min (length items) (length embs)"
      by auto
  qed
  from err part2 part3 show "case do_ingest_paths fs items ix of
        (r, ix') \<Rightarrow>
          (\<exists>e. r = Inl e)
        \<and> (\<exists>recs. length recs \<le> min (length items) (length embs)
              \<and> list_all2 (\<lambda>(v, p) (rel, m). \<exists>root. map_of (vaults ix) v = Some root
                    \<and> relative_to p root = Inr rel \<and> fs_mtime fs p = Some m)
                  (take (length recs) items) recs
              \<and> upserts (trace ix') = upserts (trace ix)
                   @ map (\<lambda>((v, p), (rel, m), emb). (v, rel, m, emb)) (zip items (zip recs embs)))
        \<and> ((\<forall>(v, p) \<in> set (take (length embs) items). \<exists>root rel m.
                map_of (vaults ix) v = Some root \<and> relative_to p root = Inr rel
                \<and> fs_mtime fs p = Some m) \<longrightarrow>
              r = Inl (if length embs < length items then ValueError_zip_shorter
                       else ValueError_zip_longer)
            \<and> length (upserts (trace ix')) =
                length (upserts (trace ix)) + min (length items) (length embs))"
    by (simp only: run prod.case)
qed

theorem C10_length_mismatch_raises_witness:
  "map (\<lambda>(v, p). fs_read scenario_fs p) [(''V'', [''V'', ''a.md'']), (''V'', [''V'', ''b.md''])]
     = map Some [''Va.md'', ''Vb.md'']
   \<and> encoder short_indexer [''Va.md'', ''Vb.md''] (model_batch_size short_indexer) = Inr [[5]]
   \<and> length [[5::int]] \<noteq> length [(''V'', [''V'', ''a.md'']), (''V'', [''V'', ''b.md''])]
   \<and> list_all (\<lambda>(v, p). \<exists>root rel m. map_of (vaults short_indexer) v = Some root
           \<and> relative_to p root = Inr rel \<and> fs_mtime scenario_fs p = Some m)
         (take (length [[5::int]]) [(''V'', [''V'', ''a.md'']), (''V'', [''V'', ''b.md''])])
   \<and> fst (do_ingest_paths scenario_fs [(''V'', [''V'', ''a.md'']), (''V'', [''V'', ''b.md''])]
            short_indexer) = Inl ValueError_zip_shorter
   \<and> upserts (trace (snd (do_ingest_paths scenario_fs
        [(''V'', [''V'', ''a.md'']), (''V'', [''V'', ''b.md''])] short_indexer)))
       = [(''V'', [''a.md''], 7, [5])]"
proof -
  let ?items = "[(''V'', [''V'', ''a.md'']), (''V'', [''V'', ''b.md''])]"
  have run: "do_ingest_paths scenario_fs ?items short_indexer =
     (Inl ValueError_zip_shorter, scenario_indexer\<lparr>
        database := [((''V'', [''a.md'']), 7, [5])],
        encoder := short_encoder,
        trace := [Rglob [''V''], OpenRead [''V'', ''a.md''], OpenRead [''V'', ''b.md''],
          EncodeDocuments [''Va.md'', ''Vb.md''] 16,
          StatFile [''V'', ''a.md''], StoreNote [''a.md''] ''V'' 7 [5]]\<rparr>)"
    by (simp add: do_ingest_paths_def short_indexer_def scenario_indexer_fields scenario_fs_def
        short_encoder_def relative_to_def store_note_def)
  have h: "map (\<lambda>(v, p). fs_read scenario_fs p) ?items = map Some [''Va.md'', ''Vb.md'']"
    "encoder short_indexer [''Va.md'', ''Vb.md''] (model_batch_size short_indexer) = Inr [[5]]"
    "\<forall>(v, p) \<in> set (take (length [[5::int]]) ?items).
         \<exists>root rel m. map_of (vaults short_indexer) v = Some root \<and> relative_to p root = Inr rel
           \<and> fs_mtime scenario_fs p = Some m"
    by (simp_all add: scenario_fs_def short_indexer_def short_encoder_def scenario_indexer_fields
        relative_to_def)
  from h C10_length_mismatch_raises [where fs = scenario_fs and items = ?items
      and texts = "[''Va.md'', ''Vb.md'']" and ix = short_indexer and embs = "[[5]]"]
  show ?thesis by (simp add: run)
qed

end
